theory Spec2Isabelle
  imports Complex_Main "HOL-Library.Sublist"
begin

section \<open>Python strings\<close>

text \<open>
  A Python \<open>str\<close> is a sequence of Unicode code points, and \<open>len\<close> counts code points. It is
  modelled as a list of natural numbers, one per code point, so that \<open>len\<close> is \<open>length\<close>
  and \<open>+\<close> is \<open>@\<close>. \<open>u ''abc''\<close> is the Python literal \<open>"abc"\<close>; the newline is code point
  10 and the space is code point 32.
\<close>

type_synonym pystr = "nat list"

abbreviation u :: "string \<Rightarrow> pystr" where
  "u s \<equiv> map of_char s"

section \<open>Segment splitter: \<open>split_text\<close>\<close>

text \<open>
  A slice \<open>text[a:b]\<close> with \<open>a \<le> b\<close> is \<open>take (b - a) (drop a text)\<close>. The parameter
  \<open>length\<close> of the source is called \<open>len\<close> here and is a natural number (the source
  passes a positive integer; for \<open>len = 0\<close> and a non-empty text the source's
  \<open>while\<close> loop never advances, which the model shows as the value \<open>None\<close>).

  \<open>for_loop text start k\<close> is the inner \<open>for i in range(end - 1, start - 1, -1)\<close> with
  \<open>k = end - start\<close> indices left to visit: it inspects \<open>i = start + k - 1\<close> first and
  stops at the first newline or space, whichever it meets first. \<open>None\<close> is the source's
  \<open>split_pos = -1\<close>.
\<close>

fun for_loop :: "pystr \<Rightarrow> nat \<Rightarrow> nat \<Rightarrow> nat option" where
  "for_loop text start 0 = None"
| "for_loop text start (Suc k) =
     (if text ! (start + k) = 10 then Some (start + k + 1)
      else if text ! (start + k) = 32 then Some (start + k + 1)
      else for_loop text start k)"

partial_function (option) split_loop :: "pystr \<Rightarrow> nat \<Rightarrow> nat \<Rightarrow> pystr list \<Rightarrow> pystr list option" where
  "split_loop text len start chunks =
     (if start < length text then
        (let end = start + len in
         if end \<ge> length text then Some (chunks @ [drop start text])
         else (case for_loop text start (end - start) of
                 Some split_pos \<Rightarrow>
                   (if split_pos > start
                    then split_loop text len split_pos (chunks @ [take (split_pos - start) (drop start text)])
                    else split_loop text len end (chunks @ [take (end - start) (drop start text)]))
               | None \<Rightarrow> split_loop text len end (chunks @ [take (end - start) (drop start text)])))
      else Some chunks)"

declare split_loop.simps [code]

definition split_text :: "pystr \<Rightarrow> nat \<Rightarrow> pystr list option" where
  "split_text text len = (if length text \<le> len then Some [text] else split_loop text len 0 [])"

text \<open>
  The statements below describe a chunk by what is left of the text when the chunk
  starts. \<open>upto_last P w\<close> is \<open>w\<close> cut after its last element that satisfies \<open>P\<close>, and is
  empty if there is none. \<open>window_chunk\<close> is the rule the loop is proved to follow: all of
  the rest if it fits, else the window of \<open>len\<close> characters cut after its last newline or
  space, else the whole window. \<open>claimed_chunk\<close> is the rule in the words of the
  specification: cut after the last newline of the window, else after its last space,
  else the whole window. \<open>chunks_follow rule len text cs\<close> says that each chunk of \<open>cs\<close>
  is what \<open>rule\<close> gives for the text that follows the chunks before it.
\<close>

definition soft_break :: "nat \<Rightarrow> bool" where
  "soft_break c = (c = 10 \<or> c = 32)"

definition upto_last :: "(nat \<Rightarrow> bool) \<Rightarrow> pystr \<Rightarrow> pystr" where
  "upto_last P w = rev (dropWhile (\<lambda>c. \<not> P c) (rev w))"

definition window_chunk :: "nat \<Rightarrow> pystr \<Rightarrow> pystr" where
  "window_chunk len rest =
     (if length rest \<le> len then rest
      else (let w = take len rest; p = upto_last soft_break w
            in if p = [] then w else p))"

definition claimed_chunk :: "nat \<Rightarrow> pystr \<Rightarrow> pystr" where
  "claimed_chunk len rest =
     (if length rest \<le> len then rest
      else (let w = take len rest in
            if 10 \<in> set w then upto_last (\<lambda>c. c = 10) w
            else if 32 \<in> set w then upto_last (\<lambda>c. c = 32) w
            else w))"

definition chunks_follow :: "(nat \<Rightarrow> pystr \<Rightarrow> pystr) \<Rightarrow> nat \<Rightarrow> pystr \<Rightarrow> pystr list \<Rightarrow> bool" where
  "chunks_follow rule len text cs =
     (\<forall>k < length cs. cs ! k = rule len (drop (length (concat (take k cs))) text))"

section \<open>Properties of \<open>split_text\<close>\<close>

lemma for_loop_upto_last:
  "start + k \<le> length text \<Longrightarrow>
   for_loop text start k =
     (let p = upto_last soft_break (take k (drop start text))
      in if p = [] then None else Some (start + length p))"
proof (induction k)
  case 0
  then show ?case by (simp add: upto_last_def)
next
  case (Suc k)
  then have lt: "start + k < length text" by simp
  then have tk: "take (Suc k) (drop start text) = take k (drop start text) @ [text ! (start + k)]"
    by (simp add: take_Suc_conv_app_nth)
  show ?case
  proof (cases "soft_break (text ! (start + k))")
    case True
    then have p: "upto_last soft_break (take (Suc k) (drop start text)) = take (Suc k) (drop start text)"
      unfolding tk by (simp add: upto_last_def)
    have l: "length (take (Suc k) (drop start text)) = Suc k" using lt by simp
    have "for_loop text start (Suc k) = Some (start + k + 1)"
      using True by (auto simp: soft_break_def)
    moreover have "take (Suc k) (drop start text) \<noteq> []" using l by auto
    ultimately show ?thesis unfolding Let_def p l by simp
  next
    case False
    then have p: "upto_last soft_break (take (Suc k) (drop start text)) = upto_last soft_break (take k (drop start text))"
      unfolding tk by (simp add: upto_last_def)
    have "for_loop text start (Suc k) = for_loop text start k"
      using False by (auto simp: soft_break_def)
    then show ?thesis unfolding p using Suc.IH lt by simp
  qed
qed

lemma upto_last_Nil [simp]: "upto_last P [] = []"
  by (simp add: upto_last_def)

lemma length_upto_last: "length (upto_last P w) \<le> length w"
  using length_dropWhile_le [of "\<lambda>c. \<not> P c" "rev w"] by (simp add: upto_last_def)

lemma upto_last_prefix: "upto_last P w = take (length (upto_last P w)) w"
proof -
  have "rev w = takeWhile (\<lambda>c. \<not> P c) (rev w) @ dropWhile (\<lambda>c. \<not> P c) (rev w)" by simp
  then have "w = rev (dropWhile (\<lambda>c. \<not> P c) (rev w)) @ rev (takeWhile (\<lambda>c. \<not> P c) (rev w))"
    by (metis rev_append rev_rev_ident)
  then have "w = upto_last P w @ rev (takeWhile (\<lambda>c. \<not> P c) (rev w))"
    by (simp add: upto_last_def)
  then show ?thesis by (metis append_eq_conv_conj)
qed

lemma window_chunk_nonempty: "0 < len \<Longrightarrow> rest \<noteq> [] \<Longrightarrow> window_chunk len rest \<noteq> []"
  by (auto simp: window_chunk_def Let_def)

lemma window_chunk_length: "length (window_chunk len rest) \<le> len"
  using length_upto_last [of soft_break "take len rest"]
  by (auto simp: window_chunk_def Let_def)

lemma window_chunk_prefix: "window_chunk len rest = take (length (window_chunk len rest)) rest"
proof (cases "length rest \<le> len")
  case True
  then show ?thesis by (simp add: window_chunk_def)
next
  case False
  show ?thesis
  proof (cases "upto_last soft_break (take len rest) = []")
    case True
    with False show ?thesis by (simp add: window_chunk_def Let_def)
  next
    case ne: False
    let ?p = "upto_last soft_break (take len rest)"
    have "?p = take (length ?p) (take len rest)" by (rule upto_last_prefix)
    moreover have "length ?p \<le> len" using length_upto_last [of soft_break "take len rest"] by simp
    ultimately have "?p = take (length ?p) rest" by (simp add: min_def)
    with False ne show ?thesis by (simp add: window_chunk_def Let_def)
  qed
qed

lemma chunks_follow_Cons:
  "c = rule len text \<Longrightarrow> chunks_follow rule len (drop (length c) text) cs \<Longrightarrow>
   chunks_follow rule len text (c # cs)"
  unfolding chunks_follow_def
proof (intro allI impI)
  fix k
  assume c: "c = rule len text"
    and rest: "\<forall>k<length cs. cs ! k = rule len (drop (length (concat (take k cs))) (drop (length c) text))"
    and k: "k < length (c # cs)"
  show "(c # cs) ! k = rule len (drop (length (concat (take k (c # cs)))) text)"
  proof (cases k)
    case 0
    with c show ?thesis by simp
  next
    case (Suc j)
    with k rest have "cs ! j = rule len (drop (length (concat (take j cs))) (drop (length c) text))"
      by simp
    with Suc show ?thesis by (simp add: add.commute)
  qed
qed

lemma split_loop_step:
  assumes "start < length text" "0 < len"
  shows "split_loop text len start chunks =
     (let c = window_chunk len (drop start text) in
      if start + len \<ge> length text then Some (chunks @ [c])
      else split_loop text len (start + length c) (chunks @ [c]))"
proof (cases "start + len \<ge> length text")
  case True
  with assms show ?thesis
    by (subst split_loop.simps) (simp add: window_chunk_def Let_def)
next
  case False
  then have w: "start + len \<le> length text" and long: "\<not> length (drop start text) \<le> len" by simp_all
  let ?w = "take len (drop start text)"
  let ?p = "upto_last soft_break ?w"
  have fl: "for_loop text start len = (if ?p = [] then None else Some (start + length ?p))"
    using for_loop_upto_last [OF w] by (simp add: Let_def)
  have wl: "length ?w = len" using w by simp
  show ?thesis
  proof (cases "?p = []")
    case True
    with False assms fl long wl show ?thesis
      by (subst split_loop.simps) (simp add: window_chunk_def Let_def)
  next
    case ne: False
    have pp: "?p = take (length ?p) ?w" by (rule upto_last_prefix)
    have "length ?p \<le> len" using length_upto_last [of soft_break ?w] wl by simp
    with pp have "take (length ?p) (drop start text) = ?p" by (simp add: min_def)
    with False assms fl long ne show ?thesis
      by (subst split_loop.simps) (simp add: window_chunk_def Let_def)
  qed
qed

lemma split_loop_total:
  "0 < len \<Longrightarrow> start \<le> length text \<Longrightarrow>
   \<exists>cs. split_loop text len start chunks = Some (chunks @ cs) \<and>
        concat cs = drop start text \<and>
        (\<forall>c \<in> set cs. length c \<le> len) \<and>
        chunks_follow window_chunk len (drop start text) cs"
proof (induction "length text - start" arbitrary: start chunks rule: less_induct)
  case less
  show ?case
  proof (cases "start < length text")
    case False
    with less.prems show ?thesis
      by (subst split_loop.simps) (simp add: chunks_follow_def)
  next
    case True
    let ?c = "window_chunk len (drop start text)"
    have step: "split_loop text len start chunks =
       (if start + len \<ge> length text then Some (chunks @ [?c])
        else split_loop text len (start + length ?c) (chunks @ [?c]))"
      using split_loop_step [OF True less.prems(1)] by (simp add: Let_def)
    have cl: "length ?c \<le> len" by (rule window_chunk_length)
    have cp: "?c = take (length ?c) (drop start text)" by (rule window_chunk_prefix)
    show ?thesis
    proof (cases "start + len \<ge> length text")
      case fits: True
      then have "?c = drop start text" by (simp add: window_chunk_def)
      with step fits cl show ?thesis
        by (intro exI [of _ "[?c]"]) (simp add: chunks_follow_def)
    next
      case False
      have ne: "?c \<noteq> []" using window_chunk_nonempty [OF less.prems(1)] True by simp
      have le: "start + length ?c \<le> length text" using False cl by simp
      have "0 < length ?c" using ne by simp
      then have "length text - (start + length ?c) < length text - start" using True by arith
      from less.hyps [OF this less.prems(1) le, of "chunks @ [?c]"]
      obtain cs where cs: "split_loop text len (start + length ?c) (chunks @ [?c]) = Some ((chunks @ [?c]) @ cs)"
        and cc: "concat cs = drop (start + length ?c) text"
        and bl: "\<forall>c \<in> set cs. length c \<le> len"
        and cf: "chunks_follow window_chunk len (drop (start + length ?c) text) cs"
        by blast
      have dd: "drop (start + length ?c) text = drop (length ?c) (drop start text)"
        by (simp add: add.commute)
      have "?c @ drop (length ?c) (drop start text) = drop start text"
        using cp by (metis append_take_drop_id)
      with cc dd have c1: "concat (?c # cs) = drop start text" by simp
      have c2: "chunks_follow window_chunk len (drop start text) (?c # cs)"
        using cf by (intro chunks_follow_Cons) (simp_all add: add.commute)
      from step False cs c1 c2 bl cl show ?thesis
        by (intro exI [of _ "?c # cs"]) simp
    qed
  qed
qed

text \<open>
  C10: for every input string and every positive maximal length, \<open>split_text\<close> returns, and
  the chunks it returns, concatenated in order, are exactly the input string.
\<close>

theorem split_text_concat:
  "0 < len \<Longrightarrow> \<exists>cs. split_text text len = Some cs \<and> concat cs = text"
proof (cases "length text \<le> len")
  case True
  then show ?thesis by (simp add: split_text_def)
next
  case False
  assume "0 < len"
  from split_loop_total [OF this, of 0 "text" "[]"] False show ?thesis
    by (auto simp: split_text_def)
qed

theorem split_text_concat_witness:
  "split_text (u ''one two three'') 5 = Some [u ''one '', u ''two '', u ''three''] \<and>
   concat [u ''one '', u ''two '', u ''three''] = u ''one two three''"
proof -
  have pos: "0 < (5::nat)" by simp
  from split_text_concat [OF pos, of "u ''one two three''"]
  obtain cs where cs: "split_text (u ''one two three'') 5 = Some cs" and cc: "concat cs = u ''one two three''"
    by blast
  have "split_text (u ''one two three'') 5 = Some [u ''one '', u ''two '', u ''three'']"
    by code_simp
  with cs cc show ?thesis by simp
qed

text \<open>
  C6 (as amended): for every text and every positive maximal length, a text that fits is
  returned as the single chunk; otherwise every chunk has at most \<open>len\<close> characters, and
  every chunk is the \<open>window_chunk\<close> of what is left of the text: all of it when it fits,
  else the window of \<open>len\<close> characters cut after its last character that is a newline or
  a space (whichever of the two comes last), else the whole window.
\<close>

theorem split_text_chunks:
  assumes "0 < len"
  shows "(length text \<le> len \<longrightarrow> split_text text len = Some [text]) \<and>
         (len < length text \<longrightarrow>
            (\<exists>cs. split_text text len = Some cs \<and>
                  (\<forall>c \<in> set cs. length c \<le> len) \<and>
                  chunks_follow window_chunk len text cs))"
proof -
  from split_loop_total [OF assms, of 0 "text" "[]"] show ?thesis
    by (auto simp: split_text_def)
qed

theorem split_text_chunks_witness:
  "split_text (u ''ab'') 5 = Some [u ''ab''] \<and>
   split_text (u ''one two three'') 5 = Some [u ''one '', u ''two '', u ''three''] \<and>
   chunks_follow window_chunk 5 (u ''one two three'') [u ''one '', u ''two '', u ''three'']"
proof -
  have pos: "0 < (5::nat)" by simp
  have a: "split_text (u ''ab'') 5 = Some [u ''ab'']"
    using split_text_chunks [OF pos, of "u ''ab''"] by simp
  have b: "split_text (u ''one two three'') 5 = Some [u ''one '', u ''two '', u ''three'']"
    by code_simp
  from split_text_chunks [OF pos, of "u ''one two three''"] b
  have "chunks_follow window_chunk 5 (u ''one two three'') [u ''one '', u ''two '', u ''three'']"
    by simp
  with a b show ?thesis by simp
qed

text \<open>
  The claim as written prefers the last newline of the window over a later space. The
  source stops at whichever comes last: in the window \<open>a\<newline>b c\<close> of a longer text it cuts after
  the space, where the claimed rule would cut after the newline.
\<close>

theorem split_text_newline_preference_counterexample:
  "split_text (u ''a'' @ [10] @ u ''b cdef'') 5 = Some [u ''a'' @ [10] @ u ''b '', u ''cdef''] \<and>
   claimed_chunk 5 (u ''a'' @ [10] @ u ''b cdef'') = u ''a'' @ [10] \<and>
   u ''a'' @ [10] @ u ''b '' \<noteq> u ''a'' @ [10]"
  by code_simp


section \<open>Quota ledger: \<open>check_and_consume_limit\<close>\<close>

text \<open>
  A row of the \<open>users\<close> table is a record of the columns the quota logic reads and writes
  (the name columns and the registration date play no part and are left out). The two
  date columns come back from the database driver as values of different Python types:
  PostgreSQL returns \<open>datetime.date\<close> and \<open>datetime.datetime\<close> objects, SQLite returns text,
  and a \<open>NULL\<close> is \<open>None\<close>; \<open>pyval\<close> is that universe. A \<open>datetime\<close> is the number of
  seconds since the epoch in UTC (a naive value is read as UTC, as the source does), a
  \<open>date\<close> is the number of days since the epoch, and \<open>date_of\<close> is \<open>now.date()\<close>.

  The \<open>backend\<close> carries the \<open>USE_SQLITE\<close> setting and the two functions of the standard
  library's \<open>datetime.date\<close> that the code calls on text: \<open>isoformat\<close>, and
  \<open>fromisoformat\<close>, which is \<open>None\<close> where Python raises \<open>ValueError\<close>. Every SQL
  \<open>UPDATE ... WHERE user_id = ?\<close> is \<open>update_row\<close>: it changes the row of that user if
  there is one. The result of \<open>check_and_consume_limit\<close> is the returned boolean, or the
  \<open>TypeError\<close> that comparing a \<open>datetime\<close> with a \<open>date\<close> raises, together with the table
  as the function leaves it.
\<close>

type_synonym user_id = int
type_synonym task = nat

datatype pyval = PyNone | PyStr pystr | PyDate int | PyDatetime int

datatype py_exc = TypeError

record user_row =
  is_admin :: bool
  subscription_status :: pystr
  subscription_expires :: pyval
  free_messages_today :: int
  last_free_reset_date :: pyval
  last_active_date :: int

type_synonym users_table = "user_id \<rightharpoonup> user_row"

record backend =
  USE_SQLITE :: bool
  isoformat :: "int \<Rightarrow> pystr"
  fromisoformat :: "pystr \<Rightarrow> int option"

definition date_of :: "int \<Rightarrow> int" where
  "date_of now = now div 86400"

definition stored_date :: "backend \<Rightarrow> int \<Rightarrow> pyval" where
  "stored_date be d = (if USE_SQLITE be then PyStr (isoformat be d) else PyDate d)"

definition get_user :: "users_table \<Rightarrow> user_id \<Rightarrow> user_row option" where
  "get_user db user_id = db user_id"

definition update_row :: "users_table \<Rightarrow> user_id \<Rightarrow> (user_row \<Rightarrow> user_row) \<Rightarrow> users_table" where
  "update_row db user_id f = (case db user_id of None \<Rightarrow> db | Some r \<Rightarrow> db(user_id \<mapsto> f r))"

definition update_user_limits :: "backend \<Rightarrow> users_table \<Rightarrow> user_id \<Rightarrow> int \<Rightarrow> int option \<Rightarrow> users_table" where
  "update_user_limits be db user_id n reset_date =
     (case reset_date of
        Some d \<Rightarrow> update_row db user_id (\<lambda>r. r\<lparr>free_messages_today := n, last_free_reset_date := stored_date be d\<rparr>)
      | None \<Rightarrow> update_row db user_id (\<lambda>r. r\<lparr>free_messages_today := n\<rparr>))"

definition deactivate_subscription :: "users_table \<Rightarrow> user_id \<Rightarrow> users_table" where
  "deactivate_subscription db user_id =
     update_row db user_id (\<lambda>r. r\<lparr>subscription_status := u ''inactive'', subscription_expires := PyNone\<rparr>)"

definition check_and_consume_limit ::
  "backend \<Rightarrow> int \<Rightarrow> users_table \<Rightarrow> user_id \<Rightarrow> (py_exc + bool) \<times> users_table" where
  "check_and_consume_limit be now db user_id =
     (case get_user db user_id of
        None \<Rightarrow> (Inr False, db)
      | Some user_data \<Rightarrow>
          if is_admin user_data then (Inr True, db)
          else
            let today = date_of now;
                (is_sub, db1) =
                  (if subscription_status user_data = u ''active'' then
                     (case subscription_expires user_data of
                        PyDatetime sub_exp \<Rightarrow>
                          if sub_exp > now then (True, db)
                          else (False, deactivate_subscription db user_id)
                      | _ \<Rightarrow> (False, db))
                   else (False, db))
            in if is_sub then (Inr True, db1)
               else
                 (case (case last_free_reset_date user_data of
                          PyDate d \<Rightarrow> Inr (Some d)
                        | PyDatetime t \<Rightarrow> Inl TypeError
                        | PyStr s \<Rightarrow>
                            (case fromisoformat be s of
                               Some d \<Rightarrow> Inr (Some d)
                             | None \<Rightarrow> Inr (Some (today - 1)))
                        | PyNone \<Rightarrow> Inr None) of
                    Inl e \<Rightarrow> (Inl e, db1)
                  | Inr last_date \<Rightarrow>
                      let limit0 = free_messages_today user_data;
                          reset = (case last_date of None \<Rightarrow> True | Some d \<Rightarrow> d < today);
                          limit = (if reset then 7 else limit0);
                          db2 = (if reset then update_user_limits be db1 user_id limit (Some today) else db1)
                      in if limit > 0
                         then (Inr True, update_user_limits be db2 user_id (limit - 1) None)
                         else (Inr False, db2)))"

text \<open>
  \<open>update_user_subscription\<close> is what the \<open>/grant_sub\<close> command calls to activate a
  subscription for \<open>days\<close> days. On SQLite the expiry it stores is the value of
  \<open>date('now', '+N days')\<close>, which is text of the form \<open>YYYY-MM-DD\<close>, and \<open>get_user\<close> hands
  the column back as a \<open>str\<close> (the connection is opened without type detection); on
  PostgreSQL it stores \<open>NOW() + N * INTERVAL '1 day'\<close>, which comes back as a \<open>datetime\<close>
  (days of 86400 seconds, the session being in UTC).
\<close>

definition update_user_subscription ::
  "backend \<Rightarrow> int \<Rightarrow> users_table \<Rightarrow> user_id \<Rightarrow> int \<Rightarrow> users_table" where
  "update_user_subscription be now db target_user_id days =
     (if USE_SQLITE be then
        update_row db target_user_id
          (\<lambda>r. r\<lparr>subscription_status := u ''active'',
                 subscription_expires := PyStr (isoformat be (date_of now + days))\<rparr>)
      else
        update_row db target_user_id
          (\<lambda>r. r\<lparr>subscription_status := u ''active'',
                 subscription_expires := PyDatetime (now + days * 86400)\<rparr>))"

subsection \<open>Calendar dates as text\<close>

text \<open>
  The two text functions of a back end, for the concrete examples: \<open>iso_of_day\<close> writes
  the day number of a date of the years 1 to 9999 as \<open>YYYY-MM-DD\<close>, as
  \<open>datetime.date.isoformat\<close> and SQLite's \<open>date()\<close> do, and \<open>day_of_iso\<close> reads that form
  and is \<open>None\<close> on any other text and on a date that does not exist, where
  \<open>datetime.date.fromisoformat\<close> raises \<open>ValueError\<close>. (From Python 3.11 on,
  \<open>fromisoformat\<close> also reads the basic form and the week forms; no text of an example
  below has one of them.) The conversion between a day number and year, month and day of
  the proleptic Gregorian calendar goes through eras of 400 years, which have 146097
  days, with the year taken to start in March.
\<close>

fun zfill :: "nat \<Rightarrow> nat \<Rightarrow> pystr" where
  "zfill 0 n = []"
| "zfill (Suc w) n = zfill w (n div 10) @ [48 + n mod 10]"

definition digits_value :: "pystr \<Rightarrow> nat option" where
  "digits_value s =
     (if s \<noteq> [] \<and> list_all (\<lambda>c. 48 \<le> c \<and> c \<le> 57) s
      then Some (foldl (\<lambda>a c. 10 * a + (c - 48)) 0 s) else None)"

definition is_leap :: "int \<Rightarrow> bool" where
  "is_leap y = (y mod 4 = 0 \<and> (if y mod 100 = 0 then y mod 400 = 0 else True))"

definition days_in_month :: "int \<Rightarrow> int \<Rightarrow> int" where
  "days_in_month y m =
     (if m = 2 then (if is_leap y then 29 else 28)
      else if m = 4 \<or> m = 6 \<or> m = 9 \<or> m = 11 then 30 else 31)"

definition days_from_civil :: "int \<Rightarrow> int \<Rightarrow> int \<Rightarrow> int" where
  "days_from_civil y m d =
     (let y1 = (if m \<le> 2 then y - 1 else y);
          era = y1 div 400;
          yoe = y1 - era * 400;
          doy = (153 * (if m > 2 then m - 3 else m + 9) + 2) div 5 + d - 1;
          doe = yoe * 365 + yoe div 4 - yoe div 100 + doy
      in era * 146097 + doe - 719468)"

definition civil_from_days :: "int \<Rightarrow> int \<times> int \<times> int" where
  "civil_from_days z =
     (let z1 = z + 719468;
          era = z1 div 146097;
          doe = z1 - era * 146097;
          yoe = (doe - doe div 1460 + doe div 36524 - doe div 146096) div 365;
          doy = doe - (365 * yoe + yoe div 4 - yoe div 100);
          mp = (5 * doy + 2) div 153;
          d = doy - (153 * mp + 2) div 5 + 1;
          m = (if mp < 10 then mp + 3 else mp - 9);
          y = yoe + era * 400
      in (if m \<le> 2 then y + 1 else y, m, d))"

definition iso_of_day :: "int \<Rightarrow> pystr" where
  "iso_of_day z =
     (case civil_from_days z of
        (y, m, d) \<Rightarrow> zfill 4 (nat y) @ [45] @ zfill 2 (nat m) @ [45] @ zfill 2 (nat d))"

definition day_of_iso :: "pystr \<Rightarrow> int option" where
  "day_of_iso s =
     (if length s = 10 \<and> s ! 4 = 45 \<and> s ! 7 = 45 then
        (case (digits_value (take 4 s), digits_value (take 2 (drop 5 s)), digits_value (drop 8 s)) of
           (Some y, Some m, Some d) \<Rightarrow>
             if 1 \<le> y \<and> 1 \<le> m \<and> m \<le> 12 \<and> 1 \<le> d \<and> int d \<le> days_in_month (int y) (int m)
             then Some (days_from_civil (int y) (int m) (int d)) else None
         | _ \<Rightarrow> None)
      else None)"

subsection \<open>The tests of the function, and example rows\<close>

text \<open>
  The two tests the function makes on the subscription columns (lines 567 to 576 of the
  source). Both ask for a status \<open>active\<close> and for an expiry that is a \<open>datetime\<close> object:
  \<open>datetime_expiry_ahead\<close> is the test that lets the request through, with the expiry
  later than now, and \<open>datetime_expiry_passed\<close> the one that deactivates the subscription.
  An expiry that is text satisfies neither, whatever date it names: the source logs a
  warning about its format and goes on to the daily counter. A reset is due when the
  stored reset date is missing, is text that does not parse, or is a date earlier than
  today.
\<close>

definition datetime_expiry_ahead :: "int \<Rightarrow> user_row \<Rightarrow> bool" where
  "datetime_expiry_ahead now r =
     (subscription_status r = u ''active'' \<and>
      (case subscription_expires r of PyDatetime t \<Rightarrow> now < t | _ \<Rightarrow> False))"

definition datetime_expiry_passed :: "int \<Rightarrow> user_row \<Rightarrow> bool" where
  "datetime_expiry_passed now r =
     (subscription_status r = u ''active'' \<and>
      (case subscription_expires r of PyDatetime t \<Rightarrow> t \<le> now | _ \<Rightarrow> False))"

definition reset_due :: "backend \<Rightarrow> int \<Rightarrow> pyval \<Rightarrow> bool" where
  "reset_due be today v =
     (case v of
        PyNone \<Rightarrow> True
      | PyStr s \<Rightarrow> (case fromisoformat be s of None \<Rightarrow> True | Some d \<Rightarrow> d < today)
      | PyDate d \<Rightarrow> d < today
      | PyDatetime t \<Rightarrow> False)"

definition is_date_value :: "pyval \<Rightarrow> bool" where
  "is_date_value v = (case v of PyDatetime t \<Rightarrow> False | _ \<Rightarrow> True)"

definition counter_of :: "users_table \<Rightarrow> user_id \<Rightarrow> int option" where
  "counter_of db user_id = map_option free_messages_today (db user_id)"

definition reset_date_of :: "users_table \<Rightarrow> user_id \<Rightarrow> pyval option" where
  "reset_date_of db user_id = map_option last_free_reset_date (db user_id)"

definition status_of :: "users_table \<Rightarrow> user_id \<Rightarrow> pystr option" where
  "status_of db user_id = map_option subscription_status (db user_id)"

definition expires_of :: "users_table \<Rightarrow> user_id \<Rightarrow> pyval option" where
  "expires_of db user_id = map_option subscription_expires (db user_id)"

text \<open>
  For the concrete examples: a PostgreSQL backend (whose rows hold dates, so that the two
  text functions are never called), the row of a user without subscription with \<open>n\<close>
  free messages left and reset date \<open>d\<close>, and the same row for an administrator; an
  SQLite backend, and the row of such a user as SQLite returns it, the reset date being
  text. Second 1730000000 of the epoch lies in day 20023, which is 2024-10-27.
\<close>

definition postgres_backend :: backend where
  "postgres_backend = \<lparr>USE_SQLITE = False, isoformat = (\<lambda>d. []), fromisoformat = (\<lambda>s. None)\<rparr>"

definition free_user :: "int \<Rightarrow> int \<Rightarrow> user_row" where
  "free_user n d = \<lparr>is_admin = False, subscription_status = u ''inactive'', subscription_expires = PyNone,
     free_messages_today = n, last_free_reset_date = PyDate d, last_active_date = 0\<rparr>"

definition admin_user :: "int \<Rightarrow> int \<Rightarrow> user_row" where
  "admin_user n d = (free_user n d)\<lparr>is_admin := True\<rparr>"

definition sqlite_backend :: backend where
  "sqlite_backend = \<lparr>USE_SQLITE = True, isoformat = iso_of_day, fromisoformat = day_of_iso\<rparr>"

definition sqlite_user :: "int \<Rightarrow> pystr \<Rightarrow> user_row" where
  "sqlite_user n d = \<lparr>is_admin = False, subscription_status = u ''inactive'', subscription_expires = PyNone,
     free_messages_today = n, last_free_reset_date = PyStr d, last_active_date = 0\<rparr>"

subsection \<open>Properties of the quota ledger\<close>

text \<open>
  C5: \<open>check_and_consume_limit\<close> is to return \<open>True\<close> without decrementing the daily counter
  for a user whose subscription is active and unexpired. On the SQLite back end it does
  not. User 1, who is no administrator, is granted a subscription of 30 days on
  2024-10-27: the row is then \<open>active\<close> with the expiry 2024-11-26, stored and returned as
  text. At the next request on the same day the function does not find a \<open>datetime\<close>
  object in the expiry, takes the subscription for malformed and falls through to the
  daily counter: with the counter at 0 it returns \<open>False\<close>, with the counter at 5 it
  returns \<open>True\<close> and decrements the counter to 4; the subscription stays active. On
  PostgreSQL, where the expiry is returned as a \<open>datetime\<close>, the same grant lets the user
  with the counter at 0 through and leaves the counter alone.
\<close>

theorem sqlite_subscriber_charged:
  "(case check_and_consume_limit sqlite_backend 1730000000
           (update_user_subscription sqlite_backend 1730000000 [1 \<mapsto> sqlite_user 0 (u ''2024-10-27'')] 1 30) 1 of
      (ok, db') \<Rightarrow>
        ok = Inr False \<and> status_of db' 1 = Some (u ''active'') \<and>
        expires_of db' 1 = Some (PyStr (u ''2024-11-26'')) \<and> counter_of db' 1 = Some 0) \<and>
   (case check_and_consume_limit sqlite_backend 1730000000
           (update_user_subscription sqlite_backend 1730000000 [1 \<mapsto> sqlite_user 5 (u ''2024-10-27'')] 1 30) 1 of
      (ok, db') \<Rightarrow>
        ok = Inr True \<and> status_of db' 1 = Some (u ''active'') \<and>
        expires_of db' 1 = Some (PyStr (u ''2024-11-26'')) \<and> counter_of db' 1 = Some 4) \<and>
   (case check_and_consume_limit postgres_backend 1730000000
           (update_user_subscription postgres_backend 1730000000 [1 \<mapsto> free_user 0 20023] 1 30) 1 of
      (ok, db') \<Rightarrow>
        ok = Inr True \<and> status_of db' 1 = Some (u ''active'') \<and>
        expires_of db' 1 = Some (PyDatetime 1732592000) \<and> counter_of db' 1 = Some 0)"
  by code_simp

text \<open>
  The same for every SQLite back end, every number of days and every user who is no
  administrator and whose counter was last reset today: after the grant the outcome is
  that of the daily counter alone, and the subscription is still active.
\<close>

lemma text_expiry_gives_no_bypass:
  assumes "db user_id = Some r" "\<not> is_admin r" "USE_SQLITE be"
    and "last_free_reset_date r = PyStr s" "fromisoformat be s = Some (date_of now)"
    and "check_and_consume_limit be now (update_user_subscription be now db user_id days) user_id = (ok, db')"
  shows "ok = Inr (0 < free_messages_today r)"
    and "counter_of db' user_id =
           Some (if 0 < free_messages_today r then free_messages_today r - 1 else free_messages_today r)"
    and "status_of db' user_id = Some (u ''active'')"
    and "expires_of db' user_id = Some (PyStr (isoformat be (date_of now + days)))"
  using assms
  unfolding check_and_consume_limit_def get_user_def update_user_subscription_def
    counter_of_def status_of_def expires_of_def update_user_limits_def update_row_def Let_def
  by (auto split: pyval.splits option.splits if_splits prod.splits)

text \<open>
  What the function does for every row, in terms of its own two tests: it returns \<open>True\<close>
  and leaves the table as it is for an administrator and when the expiry is a \<open>datetime\<close>
  that lies ahead; it deactivates the subscription when the expiry is a \<open>datetime\<close> that
  has passed; in every other case, a text expiry included, the daily counter decides: if
  a reset is due the counter is first set to 7 with today's date, and then the function
  returns \<open>True\<close> and decrements the counter by one exactly when the (possibly reset)
  counter is positive, and returns \<open>False\<close> and leaves the counter when it is not.
\<close>

lemma check_and_consume_limit_outcome:
  assumes row: "db user_id = Some r"
    and res: "check_and_consume_limit be now db user_id = (ok, db')"
  shows "(is_admin r \<or> datetime_expiry_ahead now r \<longrightarrow> ok = Inr True \<and> db' = db) \<and>
         (\<not> is_admin r \<and> datetime_expiry_passed now r \<longrightarrow> status_of db' user_id = Some (u ''inactive'')) \<and>
         (\<not> is_admin r \<and> \<not> datetime_expiry_ahead now r \<and> is_date_value (last_free_reset_date r) \<longrightarrow>
            (let reset = reset_due be (date_of now) (last_free_reset_date r);
                 limit = (if reset then 7 else free_messages_today r)
             in ok = Inr (0 < limit) \<and>
                counter_of db' user_id = Some (if 0 < limit then limit - 1 else limit) \<and>
                reset_date_of db' user_id =
                  Some (if reset then stored_date be (date_of now) else last_free_reset_date r)))"
  using row res
  unfolding check_and_consume_limit_def get_user_def datetime_expiry_ahead_def datetime_expiry_passed_def
    reset_due_def is_date_value_def counter_of_def reset_date_of_def status_of_def
    update_user_limits_def deactivate_subscription_def update_row_def Let_def
  by (auto split: pyval.splits option.splits if_splits prod.splits)

lemma check_and_consume_limit_outcome_example:
  "fst (check_and_consume_limit postgres_backend 1730000000 [1 \<mapsto> free_user 0 20022] 1) = Inr True \<and>
   counter_of (snd (check_and_consume_limit postgres_backend 1730000000 [1 \<mapsto> free_user 0 20022] 1)) 1 = Some 6 \<and>
   reset_date_of (snd (check_and_consume_limit postgres_backend 1730000000 [1 \<mapsto> free_user 0 20022] 1)) 1
     = Some (PyDate 20023) \<and>
   fst (check_and_consume_limit postgres_backend 1730000000 [1 \<mapsto> free_user 0 20023] 1) = Inr False \<and>
   counter_of (snd (check_and_consume_limit postgres_backend 1730000000 [1 \<mapsto> free_user 0 20023] 1)) 1 = Some 0 \<and>
   check_and_consume_limit postgres_backend 1730000000 [1 \<mapsto> admin_user 0 20023] 1
     = (Inr True, [1 \<mapsto> admin_user 0 20023])"
proof -
  let ?db = "[1 \<mapsto> free_user 0 20022] :: users_table"
  let ?db2 = "[1 \<mapsto> free_user 0 20023] :: users_table"
  let ?db3 = "[1 \<mapsto> admin_user 0 20023] :: users_table"
  obtain ok db' where res: "check_and_consume_limit postgres_backend 1730000000 ?db 1 = (ok, db')"
    by (cases "check_and_consume_limit postgres_backend 1730000000 ?db 1")
  obtain ok2 db2' where res2: "check_and_consume_limit postgres_backend 1730000000 ?db2 1 = (ok2, db2')"
    by (cases "check_and_consume_limit postgres_backend 1730000000 ?db2 1")
  obtain ok3 db3' where res3: "check_and_consume_limit postgres_backend 1730000000 ?db3 1 = (ok3, db3')"
    by (cases "check_and_consume_limit postgres_backend 1730000000 ?db3 1")
  have row: "?db 1 = Some (free_user 0 20022)" by simp
  have row2: "?db2 1 = Some (free_user 0 20023)" by simp
  have row3: "?db3 1 = Some (admin_user 0 20023)" by simp
  have due: "reset_due postgres_backend (date_of 1730000000) (last_free_reset_date (free_user 0 20022))"
    by (simp add: reset_due_def free_user_def date_of_def)
  have not_due: "\<not> reset_due postgres_backend (date_of 1730000000) (last_free_reset_date (free_user 0 20023))"
    by (simp add: reset_due_def free_user_def date_of_def)
  have a: "ok = Inr True \<and> counter_of db' 1 = Some 6 \<and> reset_date_of db' 1 = Some (PyDate 20023)"
    using check_and_consume_limit_outcome [OF row res] due
    by (simp add: free_user_def datetime_expiry_ahead_def is_date_value_def Let_def
          stored_date_def postgres_backend_def date_of_def)
  have b: "ok2 = Inr False \<and> counter_of db2' 1 = Some 0"
    using check_and_consume_limit_outcome [OF row2 res2] not_due
    by (simp add: free_user_def datetime_expiry_ahead_def is_date_value_def Let_def)
  have c: "ok3 = Inr True \<and> db3' = ?db3"
    using check_and_consume_limit_outcome [OF row3 res3]
    by (simp add: admin_user_def free_user_def)
  from a b c show ?thesis unfolding res res2 res3 by simp
qed

section \<open>Session registry and cancellation\<close>

text \<open>
  The process-wide state the handlers share: the \<open>active_requests\<close> dictionary from user
  ids to generation tasks, the \<open>users\<close> and \<open>conversations\<close> tables of the database (a
  conversation row is user id, role and content, oldest first), the set
  \<open>pending_photo_prompts\<close>, the per-user \<open>last_edit_...\<close> entries that the photo handler
  keeps in \<open>globals()\<close>, and whether \<open>dp.workflow_data\<close> holds the database handle and the
  settings. \<open>cancelled_tasks\<close> records on which tasks \<open>task.cancel()\<close> was called.

  \<open>cancel_generation_callback\<close> takes the outcome of parsing the user id out of the
  callback data (\<open>None\<close> is the \<open>ValueError\<close> branch, which returns early) and whether the
  SQL update of the restore raises (the source logs that and goes on). The calls that
  follow in the source (removing the inline keyboard, answering the callback, showing the
  menu) do not touch this state and are not part of the model.
\<close>

record world =
  active_requests :: "user_id \<rightharpoonup> task"
  users :: users_table
  conversations :: "(user_id \<times> pystr \<times> pystr) list"
  pending_photo_prompts :: "user_id set"
  last_edit_globals :: "user_id \<rightharpoonup> rat"
  cancelled_tasks :: "task set"
  has_db :: bool
  has_settings :: bool

definition cancel_generation_callback :: "bool \<Rightarrow> int option \<Rightarrow> world \<Rightarrow> world" where
  "cancel_generation_callback restore_raises parsed w =
     (case parsed of
        None \<Rightarrow> w
      | Some user_id_to_cancel \<Rightarrow>
          let task = active_requests w user_id_to_cancel;
              w1 = w\<lparr>active_requests := (active_requests w)(user_id_to_cancel := None)\<rparr>
          in (case task of
                None \<Rightarrow> w1
              | Some t \<Rightarrow>
                  let w2 = w1\<lparr>cancelled_tasks := insert t (cancelled_tasks w1)\<rparr>
                  in if has_db w2 \<and> has_settings w2 \<and> \<not> restore_raises
                     then w2\<lparr>users := update_row (users w2) user_id_to_cancel
                                 (\<lambda>r. r\<lparr>free_messages_today := free_messages_today r + 1\<rparr>)\<rparr>
                     else w2))"

text \<open>
  \<open>world0\<close> is the state of a fresh process with database and settings in place.
\<close>

definition world0 :: world where
  "world0 = \<lparr>active_requests = Map.empty, users = Map.empty, conversations = [],
     pending_photo_prompts = {}, last_edit_globals = Map.empty, cancelled_tasks = {},
     has_db = True, has_settings = True\<rparr>"

subsection \<open>Properties of cancellation\<close>

text \<open>
  C4 (as amended): the cancel callback adds exactly one unit to the user's daily counter
  if and only if it finds a live task for that user in \<open>active_requests\<close> (with database
  and settings at hand and the update not failing), whether or not that generation had
  consumed a unit. When no live task exists it changes neither the counters nor the
  registry; after any cancellation the user has no entry, so a second cancellation
  restores nothing.
\<close>

theorem cancel_generation_callback_restores:
  assumes "w' = cancel_generation_callback restore_raises (Some user_id) w"
  shows "(active_requests w user_id = None \<longrightarrow> users w' = users w \<and> active_requests w' = active_requests w) \<and>
         (active_requests w user_id \<noteq> None \<and> has_db w \<and> has_settings w \<and> \<not> restore_raises \<longrightarrow>
            counter_of (users w') user_id = map_option (\<lambda>n. n + 1) (counter_of (users w) user_id) \<and>
            (\<forall>other. other \<noteq> user_id \<longrightarrow> users w' other = users w other)) \<and>
         (\<not> (has_db w \<and> has_settings w \<and> \<not> restore_raises) \<longrightarrow> users w' = users w) \<and>
         active_requests w' user_id = None \<and>
         users (cancel_generation_callback again_raises (Some user_id) w') = users w'"
  using assms
  by (auto simp: cancel_generation_callback_def Let_def update_row_def counter_of_def
           split: option.splits)

theorem cancel_generation_callback_restores_witness:
  "counter_of (users (cancel_generation_callback False (Some 1)
       (world0\<lparr>active_requests := [1 \<mapsto> 0], users := [1 \<mapsto> free_user 4 20023]\<rparr>))) 1 = Some 5 \<and>
   counter_of (users (cancel_generation_callback False (Some 1) (cancel_generation_callback False (Some 1)
       (world0\<lparr>active_requests := [1 \<mapsto> 0], users := [1 \<mapsto> free_user 4 20023]\<rparr>)))) 1 = Some 5"
proof -
  let ?w = "world0\<lparr>active_requests := [1 \<mapsto> 0], users := [1 \<mapsto> free_user 4 20023]\<rparr>"
  have live: "active_requests ?w 1 \<noteq> None \<and> has_db ?w \<and> has_settings ?w \<and> \<not> False"
    by (simp add: world0_def)
  have before: "counter_of (users ?w) 1 = Some 4"
    by (simp add: counter_of_def free_user_def)
  define w' where "w' = cancel_generation_callback False (Some 1) ?w"
  from cancel_generation_callback_restores [OF w'_def, of False] live before
  show ?thesis unfolding w'_def by simp
qed

text \<open>
  The claim as written ties the restoration to a consumption. For an administrator
  \<open>check_and_consume_limit\<close> consumes nothing, and cancelling the generation still adds one
  unit: the counter goes from 7 to 8.
\<close>

theorem cancel_restores_without_consumption_counterexample:
  "check_and_consume_limit postgres_backend 1730000000 [1 \<mapsto> admin_user 7 20023] 1
     = (Inr True, [1 \<mapsto> admin_user 7 20023]) \<and>
   counter_of (users (world0\<lparr>active_requests := [1 \<mapsto> 0], users := [1 \<mapsto> admin_user 7 20023]\<rparr>)) 1 = Some 7 \<and>
   counter_of (users (cancel_generation_callback False (Some 1)
       (world0\<lparr>active_requests := [1 \<mapsto> 0], users := [1 \<mapsto> admin_user 7 20023]\<rparr>))) 1 = Some 8"
  by (simp add: check_and_consume_limit_def get_user_def admin_user_def free_user_def
        cancel_generation_callback_def world0_def counter_of_def update_row_def Let_def)


section \<open>Markup transcoder: \<open>markdown_to_telegram_html\<close>\<close>

subsection \<open>Character classes\<close>

text \<open>
  For a \<open>str\<close> pattern, \<open>\s\<close> and \<open>str.strip()\<close> use \<open>str.isspace\<close>, and \<open>\w\<close> is \<open>str.isalnum\<close> or
  the underscore. Below code point 128 these are the sets written out in \<open>is_space\<close> and
  \<open>is_word\<close>. From 128 on they are tables of the Unicode character database, which is not
  part of the repository: the record \<open>ucd\<close> takes them as parameters (with \<open>str.lower\<close> for
  the same range), and every statement below holds for every such table.
\<close>

record ucd =
  uni_alnum :: "nat \<Rightarrow> bool"
  uni_space :: "nat \<Rightarrow> bool"
  uni_lower :: "nat \<Rightarrow> pystr"

definition is_space :: "ucd \<Rightarrow> nat \<Rightarrow> bool" where
  "is_space d c = (if c < 128 then (9 \<le> c \<and> c \<le> 13) \<or> (28 \<le> c \<and> c \<le> 32) else uni_space d c)"

definition is_word :: "ucd \<Rightarrow> nat \<Rightarrow> bool" where
  "is_word d c =
     (if c < 128 then (48 \<le> c \<and> c \<le> 57) \<or> (65 \<le> c \<and> c \<le> 90) \<or> (97 \<le> c \<and> c \<le> 122) \<or> c = 95
      else uni_alnum d c)"

subsection \<open>Regular expressions as \<open>re.sub\<close> applies them\<close>

text \<open>
  The patterns of the source use literals, one-character classes under a quantifier
  (greedy or lazy, with bounds), an optional non-capturing group, capture groups, the
  multi-line anchors and one-character negative look-around; \<open>re\<close> has a constructor for
  each, and \<open>Many lazy lo hi cls\<close> is the class \<open>cls\<close> repeated between \<open>lo\<close> and \<open>hi\<close> times
  (\<open>None\<close>: unbounded). A matcher state is the character before the current position
  (\<open>None\<close> at the start of the text), the text from the current position on, and the
  groups captured so far. \<open>matches r st\<close> lists the states in which a match of \<open>r\<close> from
  \<open>st\<close> can end, in the order in which Python's backtracking matcher tries them, so its
  head is the match \<open>re\<close> reports.

  \<open>sub_scan\<close> is \<open>re.sub\<close> with a function as replacement: it goes through the text from
  left to right, and at each position outside the previous match it replaces the first
  match found there, or else copies the character. \<open>skip\<close> counts the characters of the
  text that still belong to the match just replaced. The replacement function of the
  code-span extraction updates a dictionary and a counter; \<open>acc\<close> threads that state.
\<close>

datatype re =
    Lit pystr
  | Many bool nat "nat option" "nat \<Rightarrow> bool"
  | Seq re re
  | Opt re
  | Grp nat re
  | Bol
  | Eol
  | NotBehind nat
  | NotAhead nat

record mstate =
  m_prev :: "nat option"
  m_rest :: pystr
  m_groups :: "nat \<Rightarrow> pystr"

definition advance :: "nat \<Rightarrow> mstate \<Rightarrow> mstate" where
  "advance k st =
     st\<lparr>m_prev := (case take k (m_rest st) of [] \<Rightarrow> m_prev st | x # xs \<Rightarrow> Some (last (x # xs))),
        m_rest := drop k (m_rest st)\<rparr>"

fun matches :: "re \<Rightarrow> mstate \<Rightarrow> mstate list" where
  "matches (Lit s) st =
     (if take (length s) (m_rest st) = s then [advance (length s) st] else [])"
| "matches (Many lazy lo hi cls) st =
     (let n = length (takeWhile cls (m_rest st));
          top = (case hi of None \<Rightarrow> n | Some h \<Rightarrow> min n h);
          counts = (if lazy then [lo ..< Suc top] else rev [lo ..< Suc top])
      in map (\<lambda>k. advance k st) counts)"
| "matches (Seq a b) st = concat (map (matches b) (matches a st))"
| "matches (Opt a) st = matches a st @ [st]"
| "matches (Grp i a) st =
     map (\<lambda>st'. st'\<lparr>m_groups := (m_groups st')
                      (i := take (length (m_rest st) - length (m_rest st')) (m_rest st))\<rparr>)
         (matches a st)"
| "matches Bol st = (if m_prev st = None \<or> m_prev st = Some 10 then [st] else [])"
| "matches Eol st = (case m_rest st of [] \<Rightarrow> [st] | c # cs \<Rightarrow> if c = 10 then [st] else [])"
| "matches (NotBehind c) st = (if m_prev st = Some c then [] else [st])"
| "matches (NotAhead c) st = (case m_rest st of [] \<Rightarrow> [st] | x # xs \<Rightarrow> if x = c then [] else [st])"

fun seqs :: "re list \<Rightarrow> re" where
  "seqs [] = Lit []"
| "seqs [r] = r"
| "seqs (r # rs) = Seq r (seqs rs)"

fun sub_scan ::
  "re \<Rightarrow> ('s \<Rightarrow> (nat \<Rightarrow> pystr) \<Rightarrow> pystr \<times> 's) \<Rightarrow> nat option \<Rightarrow> pystr \<Rightarrow> nat \<Rightarrow> 's \<Rightarrow> pystr \<times> 's" where
  "sub_scan r f prev [] skip acc =
     (if skip > 0 then ([], acc)
      else (case matches r \<lparr>m_prev = prev, m_rest = [], m_groups = (\<lambda>i. [])\<rparr> of
              [] \<Rightarrow> ([], acc)
            | m # ms \<Rightarrow> f acc (m_groups m)))"
| "sub_scan r f prev (c # cs) skip acc =
     (if skip > 0 then sub_scan r f (Some c) cs (skip - 1) acc
      else (case matches r \<lparr>m_prev = prev, m_rest = c # cs, m_groups = (\<lambda>i. [])\<rparr> of
              [] \<Rightarrow> (let (out, acc') = sub_scan r f (Some c) cs 0 acc in (c # out, acc'))
            | m # ms \<Rightarrow>
                (let k = length (c # cs) - length (m_rest m);
                     (rep, acc1) = f acc (m_groups m)
                 in if k = 0
                    then (let (out, acc2) = sub_scan r f (Some c) cs 0 acc1 in (rep @ c # out, acc2))
                    else (let (out, acc2) = sub_scan r f (Some c) cs (k - 1) acc1 in (rep @ out, acc2)))))"

definition re_sub_state ::
  "re \<Rightarrow> ('s \<Rightarrow> (nat \<Rightarrow> pystr) \<Rightarrow> pystr \<times> 's) \<Rightarrow> pystr \<Rightarrow> 's \<Rightarrow> pystr \<times> 's" where
  "re_sub_state r f text acc = sub_scan r f None text 0 acc"

definition re_sub :: "re \<Rightarrow> ((nat \<Rightarrow> pystr) \<Rightarrow> pystr) \<Rightarrow> pystr \<Rightarrow> pystr" where
  "re_sub r f text = fst (sub_scan r (\<lambda>acc g. (f g, acc)) None text 0 ())"

text \<open>
  \<open>str.replace\<close> (all non-overlapping occurrences, from the left), \<open>html.escape\<close> (written
  per character, which is what its chain of replacements amounts to), \<open>str.strip()\<close>, the
  decimal digits of a counter in an f-string, and assignment to a dictionary key, which
  keeps insertion order.
\<close>

fun replace_scan :: "pystr \<Rightarrow> pystr \<Rightarrow> pystr \<Rightarrow> nat \<Rightarrow> pystr" where
  "replace_scan old new [] skip = []"
| "replace_scan old new (c # cs) skip =
     (if skip > 0 then replace_scan old new cs (skip - 1)
      else if take (length old) (c # cs) = old then new @ replace_scan old new cs (length old - 1)
      else c # replace_scan old new cs 0)"

definition py_replace :: "pystr \<Rightarrow> pystr \<Rightarrow> pystr \<Rightarrow> pystr" where
  "py_replace text old new =
     (if old = [] then new @ concat (map (\<lambda>c. c # new) text)
      else replace_scan old new text 0)"

definition html_escape :: "bool \<Rightarrow> pystr \<Rightarrow> pystr" where
  "html_escape quote s =
     concat (map (\<lambda>c. if c = 38 then u ''&amp;''
                      else if c = 60 then u ''&lt;''
                      else if c = 62 then u ''&gt;''
                      else if quote \<and> c = 34 then u ''&quot;''
                      else if quote \<and> c = 39 then u ''&#x27;''
                      else [c]) s)"

definition strip :: "ucd \<Rightarrow> pystr \<Rightarrow> pystr" where
  "strip d s = rev (dropWhile (is_space d) (rev (dropWhile (is_space d) s)))"

fun str_nat :: "nat \<Rightarrow> pystr" where
  "str_nat n = (if n < 10 then [48 + n] else str_nat (n div 10) @ [48 + n mod 10])"

declare str_nat.simps [simp del]

fun dict_set :: "'k \<Rightarrow> 'v \<Rightarrow> ('k \<times> 'v) list \<Rightarrow> ('k \<times> 'v) list" where
  "dict_set k v [] = [(k, v)]"
| "dict_set k v ((k', v') # kvs) = (if k = k' then (k, v) # kvs else (k', v') # dict_set k v kvs)"

subsection \<open>The transcoder\<close>

text \<open>
  The patterns are those of the source, in its order. The replacement of the strike-through
  rule is a space, the group, the code point U+2060 (8288) and a space.
\<close>

type_synonym extraction = "(pystr \<times> pystr) list \<times> nat"

definition extract_code_block :: "extraction \<Rightarrow> (nat \<Rightarrow> pystr) \<Rightarrow> pystr \<times> extraction" where
  "extract_code_block acc g =
     (let (code_blocks, placeholder_counter) = acc;
          placeholder = u ''@@CODEBLOCK_'' @ str_nat placeholder_counter @ u ''@@''
      in (placeholder, (dict_set placeholder (g 1) code_blocks, placeholder_counter + 1)))"

definition extract_inline_code :: "extraction \<Rightarrow> (nat \<Rightarrow> pystr) \<Rightarrow> pystr \<times> extraction" where
  "extract_inline_code acc g =
     (let (code_blocks, placeholder_counter) = acc;
          placeholder = u ''@@INLINECODE_'' @ str_nat placeholder_counter @ u ''@@''
      in (placeholder, (dict_set placeholder (g 1) code_blocks, placeholder_counter + 1)))"

definition replace_link :: "(nat \<Rightarrow> pystr) \<Rightarrow> pystr" where
  "replace_link g =
     (let label = g 1; url = g 2; safe_url = html_escape True url
      in u ''<a href=\"'' @ safe_url @ u ''\">'' @ label @ u ''</a>'')"

definition fence_re :: "ucd \<Rightarrow> re" where
  "fence_re d = seqs [Lit (u ''```''), Opt (Many False 1 None (is_word d)), Lit [10],
                      Grp 1 (Many True 0 None (\<lambda>c. True)), Lit (u ''```'')]"

definition inline_re :: re where
  "inline_re = seqs [Lit (u ''`''), Grp 1 (Many True 1 None (\<lambda>c. c \<noteq> 96)), Lit (u ''`'')]"

definition link_re :: re where
  "link_re = seqs [Lit (u ''[''), Grp 1 (Many False 1 None (\<lambda>c. c \<noteq> 93)), Lit (u '']''),
                   Lit (u ''(''), Grp 2 (Many False 1 None (\<lambda>c. c \<noteq> 41)), Lit (u '')'')]"

definition heading_re :: "ucd \<Rightarrow> re" where
  "heading_re d = seqs [Bol, Grp 1 (Many False 1 (Some 6) (\<lambda>c. c = 35)), Many False 0 None (is_space d),
                        Grp 2 (Many False 1 None (\<lambda>c. c \<noteq> 10)), Eol]"

definition bold_re :: re where
  "bold_re = seqs [Lit (u ''**''), Grp 1 (Many False 1 None (\<lambda>c. c \<noteq> 42)), Lit (u ''**'')]"

definition underline_re :: re where
  "underline_re = seqs [Lit (u ''__''), Grp 1 (Many False 1 None (\<lambda>c. c \<noteq> 95)), Lit (u ''__'')]"

definition italic_star_re :: re where
  "italic_star_re = seqs [NotBehind 42, Lit (u ''*''), Grp 1 (Many False 1 None (\<lambda>c. c \<noteq> 42)),
                          Lit (u ''*''), NotAhead 42]"

definition italic_underscore_re :: re where
  "italic_underscore_re = seqs [NotBehind 95, Lit (u ''_''), Grp 1 (Many False 1 None (\<lambda>c. c \<noteq> 95)),
                                Lit (u ''_''), NotAhead 95]"

definition strike_re :: re where
  "strike_re = seqs [Lit (u ''~~''), Grp 1 (Many True 1 None (\<lambda>c. c \<noteq> 10)), Lit (u ''~~'')]"

definition spoiler_re :: re where
  "spoiler_re = seqs [Lit (u ''||''), Grp 1 (Many True 1 None (\<lambda>c. c \<noteq> 10)), Lit (u ''||'')]"

definition blank_lines_re :: re where
  "blank_lines_re = Many False 3 None (\<lambda>c. c = 10)"

definition marker_re :: re where
  "marker_re = Many False 1 (Some 1) (\<lambda>c. c = 42 \<or> c = 95 \<or> c = 126)"

definition restore_code :: "pystr \<Rightarrow> pystr \<times> pystr \<Rightarrow> pystr" where
  "restore_code text entry =
     (let (placeholder, code) = entry;
          escaped = html_escape False code;
          replacement = (if take 12 placeholder = u ''@@CODEBLOCK_''
                         then u ''<pre>'' @ escaped @ u ''</pre>''
                         else u ''<code>'' @ escaped @ u ''</code>'')
      in py_replace text placeholder replacement)"

definition markdown_to_telegram_html :: "ucd \<Rightarrow> pystr \<Rightarrow> pystr" where
  "markdown_to_telegram_html d text =
     (if text = [] then []
      else
        let (t1, acc1) = re_sub_state (fence_re d) extract_code_block text ([], 0);
            (t2, acc2) = re_sub_state inline_re extract_inline_code t1 acc1;
            code_blocks = fst acc2;
            t3 = html_escape False t2;
            t4 = re_sub link_re replace_link t3;
            t5 = re_sub (heading_re d) (\<lambda>g. u ''<b>'' @ g 2 @ u ''</b>'' @ [10]) t4;
            t6 = re_sub bold_re (\<lambda>g. u ''<b>'' @ g 1 @ u ''</b>'') t5;
            t7 = re_sub underline_re (\<lambda>g. u ''<u>'' @ g 1 @ u ''</u>'') t6;
            t8 = re_sub italic_star_re (\<lambda>g. u ''<i>'' @ g 1 @ u ''</i>'') t7;
            t9 = re_sub italic_underscore_re (\<lambda>g. u ''<i>'' @ g 1 @ u ''</i>'') t8;
            t10 = re_sub strike_re (\<lambda>g. [32] @ g 1 @ [8288, 32]) t9;
            t11 = re_sub spoiler_re (\<lambda>g. u ''<tg-spoiler>'' @ g 1 @ u ''</tg-spoiler>'') t10;
            t12 = foldl restore_code t11 code_blocks;
            t13 = re_sub blank_lines_re (\<lambda>g. [10, 10]) t12;
            t14 = strip d t13
        in re_sub marker_re (\<lambda>g. []) t14)"

text \<open>
  \<open>ascii_ucd\<close> stands in for the Unicode tables in the concrete examples, whose texts are
  ASCII, so that the tables are never consulted.
\<close>

definition ascii_ucd :: ucd where
  "ascii_ucd = \<lparr>uni_alnum = (\<lambda>c. False), uni_space = (\<lambda>c. False), uni_lower = (\<lambda>c. [c])\<rparr>"

subsection \<open>Properties of the transcoder\<close>

text \<open>
  C2: transcoding is claimed never to alter the content of a code span, so that an input
  with \<open>*bold-looking*\<close> wrapped in backticks shows the asterisks literally inside a code
  element. The source restores the code spans before its last pass, which deletes every
  \<open>*\<close>, \<open>_\<close> and \<open>~\<close> of the whole text: at the claim's own example the asterisks are gone.
\<close>

theorem code_span_markers_stripped:
  "markdown_to_telegram_html d (u ''`*bold-looking*`'') = u ''<code>bold-looking</code>''"
  by code_simp

text \<open>
  The same happens to underscores inside a fenced block, and with two inline spans in one
  text the underscores of the two placeholders are read as an italic pair, so that the
  placeholders are never restored and the code is lost.
\<close>

lemma fenced_code_markers_stripped:
  "markdown_to_telegram_html d (u ''```py'' @ [10] @ u ''x_y = a*b'' @ [10] @ u ''```'')
     = u ''<pre>xy = ab'' @ [10] @ u ''</pre>''"
  by code_simp

lemma two_inline_spans_lost:
  "markdown_to_telegram_html d (u ''`a` `b`'') = u ''@@INLINECODE<i>0@@ @@INLINECODE</i>1@@''"
  by code_simp

text \<open>
  Text without markup is returned as it is: no pattern can start at a character that is
  \<open>inert\<close>, nothing is escaped and nothing is stripped.
\<close>

definition inert :: "nat \<Rightarrow> bool" where
  "inert c = (c \<noteq> 10 \<and> c \<noteq> 35 \<and> c \<noteq> 38 \<and> c \<noteq> 42 \<and> c \<noteq> 60 \<and> c \<noteq> 62 \<and>
              c \<noteq> 91 \<and> c \<noteq> 95 \<and> c \<noteq> 96 \<and> c \<noteq> 124 \<and> c \<noteq> 126)"

lemma lit_no_match:
  "s \<noteq> [] \<Longrightarrow> hd s \<notin> set (m_rest st) \<Longrightarrow> matches (Lit s) st = []"
proof -
  assume ne: "s \<noteq> []" and nin: "hd s \<notin> set (m_rest st)"
  have "take (length s) (m_rest st) \<noteq> s"
  proof
    assume eq: "take (length s) (m_rest st) = s"
    from ne have "hd s \<in> set s" by simp
    with eq have "hd s \<in> set (take (length s) (m_rest st))" by simp
    then have "hd s \<in> set (m_rest st)" by (rule in_set_takeD)
    with nin show False by simp
  qed
  then show ?thesis by simp
qed

lemma many_no_match:
  "0 < lo \<Longrightarrow> \<forall>c \<in> set (m_rest st). \<not> cls c \<Longrightarrow> matches (Many lazy lo hi cls) st = []"
proof -
  assume lo: "0 < lo" and none: "\<forall>c \<in> set (m_rest st). \<not> cls c"
  have "takeWhile cls (m_rest st) = []"
    using none by (cases "m_rest st") auto
  with lo show ?thesis by (auto simp: Let_def split: option.splits)
qed

lemma seq_no_match: "matches a st = [] \<Longrightarrow> matches (Seq a b) st = []"
  by simp

lemma seq_guard_no_match:
  "a = Bol \<or> a = NotBehind c \<Longrightarrow> matches b st = [] \<Longrightarrow> matches (Seq a b) st = []"
  by (auto split: if_splits)

lemma sub_scan_no_match:
  assumes nomatch: "\<And>prev rest g. set rest \<subseteq> S \<Longrightarrow>
                      matches r \<lparr>m_prev = prev, m_rest = rest, m_groups = g\<rparr> = []"
  shows "set s \<subseteq> S \<Longrightarrow> sub_scan r f prev s 0 acc = (s, acc)"
proof (induction s arbitrary: prev)
  case Nil
  have "matches r \<lparr>m_prev = prev, m_rest = [], m_groups = (\<lambda>i. [])\<rparr> = []"
    by (rule nomatch) simp
  then show ?case by simp
next
  case (Cons c cs)
  have "matches r \<lparr>m_prev = prev, m_rest = c # cs, m_groups = (\<lambda>i. [])\<rparr> = []"
    using Cons.prems by (rule nomatch)
  moreover have "sub_scan r f (Some c) cs 0 acc = (cs, acc)"
    using Cons.prems by (intro Cons.IH) simp
  ultimately show ?case by simp
qed

lemma re_sub_no_match:
  assumes "\<And>prev rest g. set rest \<subseteq> S \<Longrightarrow>
             matches r \<lparr>m_prev = prev, m_rest = rest, m_groups = g\<rparr> = []"
    and "set text \<subseteq> S"
  shows "re_sub r f text = text"
  unfolding re_sub_def by (simp add: sub_scan_no_match [of S r, OF assms])

lemma re_sub_state_no_match:
  assumes "\<And>prev rest g. set rest \<subseteq> S \<Longrightarrow>
             matches r \<lparr>m_prev = prev, m_rest = rest, m_groups = g\<rparr> = []"
    and "set text \<subseteq> S"
  shows "re_sub_state r f text acc = (text, acc)"
  unfolding re_sub_state_def by (simp add: sub_scan_no_match [of S r, OF assms])

lemma inert_subset: "set rest \<subseteq> Collect inert \<Longrightarrow> c \<in> {10, 35, 38, 42, 60, 62, 91, 95, 96, 124, 126} \<Longrightarrow> c \<notin> set rest"
  by (auto simp: inert_def)

lemma fence_inert:
  "set rest \<subseteq> Collect inert \<Longrightarrow> matches (fence_re d) \<lparr>m_prev = prev, m_rest = rest, m_groups = g\<rparr> = []"
  unfolding fence_re_def seqs.simps
  by (rule seq_no_match, rule lit_no_match) (simp_all add: inert_subset)

lemma inline_inert:
  "set rest \<subseteq> Collect inert \<Longrightarrow> matches inline_re \<lparr>m_prev = prev, m_rest = rest, m_groups = g\<rparr> = []"
  unfolding inline_re_def seqs.simps
  by (rule seq_no_match, rule lit_no_match) (simp_all add: inert_subset)

lemma link_inert:
  "set rest \<subseteq> Collect inert \<Longrightarrow> matches link_re \<lparr>m_prev = prev, m_rest = rest, m_groups = g\<rparr> = []"
  unfolding link_re_def seqs.simps
  by (rule seq_no_match, rule lit_no_match) (simp_all add: inert_subset)

lemma heading_inert:
  "set rest \<subseteq> Collect inert \<Longrightarrow> matches (heading_re d) \<lparr>m_prev = prev, m_rest = rest, m_groups = g\<rparr> = []"
proof -
  assume sub: "set rest \<subseteq> Collect inert"
  have "matches (Many False 1 (Some 6) (\<lambda>c. c = 35)) \<lparr>m_prev = prev, m_rest = rest, m_groups = g\<rparr> = []"
    using sub by (intro many_no_match) (auto simp: inert_def)
  then have "matches (Grp 1 (Many False 1 (Some 6) (\<lambda>c. c = 35))) \<lparr>m_prev = prev, m_rest = rest, m_groups = g\<rparr> = []"
    by simp
  then show ?thesis unfolding heading_re_def seqs.simps
    by (intro seq_guard_no_match [of _ 0] seq_no_match) simp_all
qed

lemma bold_inert:
  "set rest \<subseteq> Collect inert \<Longrightarrow> matches bold_re \<lparr>m_prev = prev, m_rest = rest, m_groups = g\<rparr> = []"
  unfolding bold_re_def seqs.simps
  by (rule seq_no_match, rule lit_no_match) (simp_all add: inert_subset)

lemma underline_inert:
  "set rest \<subseteq> Collect inert \<Longrightarrow> matches underline_re \<lparr>m_prev = prev, m_rest = rest, m_groups = g\<rparr> = []"
  unfolding underline_re_def seqs.simps
  by (rule seq_no_match, rule lit_no_match) (simp_all add: inert_subset)

lemma italic_star_inert:
  "set rest \<subseteq> Collect inert \<Longrightarrow> matches italic_star_re \<lparr>m_prev = prev, m_rest = rest, m_groups = g\<rparr> = []"
  unfolding italic_star_re_def seqs.simps
  by (rule seq_guard_no_match, simp, rule seq_no_match, rule lit_no_match) (simp_all add: inert_subset)

lemma italic_underscore_inert:
  "set rest \<subseteq> Collect inert \<Longrightarrow> matches italic_underscore_re \<lparr>m_prev = prev, m_rest = rest, m_groups = g\<rparr> = []"
  unfolding italic_underscore_re_def seqs.simps
  by (rule seq_guard_no_match, simp, rule seq_no_match, rule lit_no_match) (simp_all add: inert_subset)

lemma strike_inert:
  "set rest \<subseteq> Collect inert \<Longrightarrow> matches strike_re \<lparr>m_prev = prev, m_rest = rest, m_groups = g\<rparr> = []"
  unfolding strike_re_def seqs.simps
  by (rule seq_no_match, rule lit_no_match) (simp_all add: inert_subset)

lemma spoiler_inert:
  "set rest \<subseteq> Collect inert \<Longrightarrow> matches spoiler_re \<lparr>m_prev = prev, m_rest = rest, m_groups = g\<rparr> = []"
  unfolding spoiler_re_def seqs.simps
  by (rule seq_no_match, rule lit_no_match) (simp_all add: inert_subset)

lemma blank_lines_inert:
  "set rest \<subseteq> Collect inert \<Longrightarrow> matches blank_lines_re \<lparr>m_prev = prev, m_rest = rest, m_groups = g\<rparr> = []"
  unfolding blank_lines_re_def by (intro many_no_match) (auto simp: inert_def)

lemma marker_inert:
  "set rest \<subseteq> Collect inert \<Longrightarrow> matches marker_re \<lparr>m_prev = prev, m_rest = rest, m_groups = g\<rparr> = []"
  unfolding marker_re_def by (intro many_no_match) (auto simp: inert_def)

lemma html_escape_inert: "set s \<subseteq> Collect inert \<Longrightarrow> html_escape False s = s"
  by (induction s) (auto simp: html_escape_def inert_def)

lemma strip_id: "s \<noteq> [] \<Longrightarrow> \<not> is_space d (hd s) \<Longrightarrow> \<not> is_space d (last s) \<Longrightarrow> strip d s = s"
proof -
  assume ne: "s \<noteq> []" and h: "\<not> is_space d (hd s)" and l: "\<not> is_space d (last s)"
  from ne h have a: "dropWhile (is_space d) s = s" by (cases s) auto
  from ne l have "dropWhile (is_space d) (rev s) = rev s"
    by (cases "rev s") (auto simp: last_rev [symmetric] simp del: last_rev)
  with a show ?thesis by (simp add: strip_def)
qed

lemma markdown_inert:
  assumes ne: "text \<noteq> []" and sub: "set text \<subseteq> Collect inert"
    and h: "\<not> is_space d (hd text)" and l: "\<not> is_space d (last text)"
  shows "markdown_to_telegram_html d text = text"
proof -
  have t1: "re_sub_state (fence_re d) extract_code_block text ([], 0) = (text, ([], 0))"
    by (rule re_sub_state_no_match [OF fence_inert sub])
  have t2: "re_sub_state inline_re extract_inline_code text ([], 0) = (text, ([], 0))"
    by (rule re_sub_state_no_match [OF inline_inert sub])
  have t3: "html_escape False text = text" by (rule html_escape_inert [OF sub])
  have t4: "re_sub link_re replace_link text = text"
    by (rule re_sub_no_match [OF link_inert sub])
  have t5: "\<And>f. re_sub (heading_re d) f text = text"
    by (rule re_sub_no_match [OF heading_inert sub])
  have t6: "\<And>f. re_sub bold_re f text = text"
    by (rule re_sub_no_match [OF bold_inert sub])
  have t7: "\<And>f. re_sub underline_re f text = text"
    by (rule re_sub_no_match [OF underline_inert sub])
  have t8: "\<And>f. re_sub italic_star_re f text = text"
    by (rule re_sub_no_match [OF italic_star_inert sub])
  have t9: "\<And>f. re_sub italic_underscore_re f text = text"
    by (rule re_sub_no_match [OF italic_underscore_inert sub])
  have t10: "\<And>f. re_sub strike_re f text = text"
    by (rule re_sub_no_match [OF strike_inert sub])
  have t11: "\<And>f. re_sub spoiler_re f text = text"
    by (rule re_sub_no_match [OF spoiler_inert sub])
  have t13: "\<And>f. re_sub blank_lines_re f text = text"
    by (rule re_sub_no_match [OF blank_lines_inert sub])
  have t14: "strip d text = text" by (rule strip_id [OF ne h l])
  have t15: "\<And>f. re_sub marker_re f text = text"
    by (rule re_sub_no_match [OF marker_inert sub])
  show ?thesis
    unfolding markdown_to_telegram_html_def
    using ne by (simp add: t1 t2 t3 t4 t5 t6 t7 t8 t9 t10 t11 t13 t14 t15)
qed

section \<open>Stream relay: the loop of \<open>message_handler\<close>\<close>

text \<open>
  Every awaited call of the handlers either returns or raises, and what it does is up to
  Telegram, the database, the provider and the canceller. The model takes these outcomes
  as inputs: \<open>None\<close> (or \<open>Inr\<close> of the new message id) when the call returns, \<open>Some e\<close> (or
  \<open>Inl e\<close>) when it raises \<open>e\<close>. The exceptions are told apart as far as the \<open>except\<close>
  clauses of the source tell them apart: \<open>TelegramRetryAfter\<close> (a subclass of
  \<open>TelegramAPIError\<close>), any other \<open>TelegramAPIError\<close> with its message, any other
  \<open>Exception\<close>, and \<open>asyncio.CancelledError\<close>, which is not an \<open>Exception\<close> and is what a
  cancelled task receives at its next \<open>await\<close>.

  The calls made on the channel are recorded, with their outcome, in a trace of events.
  The constant texts of the source are named constructors of \<open>content\<close> (hourglass
  placeholder, the \<open>...\<close> placeholder of a new segment, the salute sent with the main menu,
  and the notices); \<open>Text\<close> is answer text. \<open>parse_mode=None\<close> is \<open>Plain\<close>; a call that gives no
  parse mode uses the bot's default, \<open>HTML\<close>.
\<close>

type_synonym message_id = nat

datatype exc = TelegramRetryAfter rat | TelegramAPIError pystr | OtherException | CancelledError

definition is_telegram_error :: "exc \<Rightarrow> bool" where
  "is_telegram_error e = (case e of TelegramRetryAfter r \<Rightarrow> True | TelegramAPIError m \<Rightarrow> True | _ \<Rightarrow> False)"

definition is_exception :: "exc \<Rightarrow> bool" where
  "is_exception e = (e \<noteq> CancelledError)"

datatype markup = NoMarkup | ProgressKeyboard user_id | MainMenu | SubscribeButton

datatype parse_mode = HTML | Plain

datatype content =
    Text pystr
  | Hourglass
  | Dots
  | Salute
  | BusyNotice
  | QuotaNotice
  | NoAnswerNotice
  | ErrorNotice
  | ErrorNoticeRetry
  | InternalErrorNotice
  | PhotoErrorNotice
  | AnalysingNotice
  | DisplayFailedNotice

datatype call =
    SendChatAction
  | Answer content parse_mode markup
  | EditMessageText "message_id option" content parse_mode markup
  | EditMessageReplyMarkup "message_id option" markup
  | Sleep rat
  | GeneratePhoto pystr
  | DownloadFile

datatype reply = Done | Sent message_id | Failed exc

type_synonym event = "call \<times> reply"

definition reply_of :: "exc option \<Rightarrow> reply" where
  "reply_of r = (case r of None \<Rightarrow> Done | Some e \<Rightarrow> Failed e)"

definition TELEGRAM_MAX_LENGTH :: nat where
  "TELEGRAM_MAX_LENGTH = 4000"

definition CONVERSATION_HISTORY_LIMIT :: nat where
  "CONVERSATION_HISTORY_LIMIT = 5"

definition edit_interval :: rat where
  "edit_interval = 3 / 2"

definition py_lower :: "ucd \<Rightarrow> pystr \<Rightarrow> pystr" where
  "py_lower d s = concat (map (\<lambda>c. if 65 \<le> c \<and> c \<le> 90 then [c + 32]
                                    else if c < 128 then [c] else uni_lower d c) s)"

fun py_in :: "pystr \<Rightarrow> pystr \<Rightarrow> bool" where
  "py_in needle [] = (needle = [])"
| "py_in needle (c # cs) = (take (length needle) (c # cs) = needle \<or> py_in needle cs)"

definition message_unavailable :: "ucd \<Rightarrow> pystr \<Rightarrow> bool" where
  "message_unavailable d msg =
     (py_in (u ''message to edit not found'') (py_lower d msg) \<or>
      py_in (u ''message can'' @ [39] @ u ''t be edited'') (py_lower d msg) \<or>
      py_in (u ''message is not modified'') (py_lower d msg))"

definition truthy_id :: "message_id option \<Rightarrow> bool" where
  "truthy_id i = (case i of None \<Rightarrow> False | Some n \<Rightarrow> n \<noteq> 0)"

text \<open>
  The local variables of the streaming part of \<open>message_handler\<close>. Three fields are not in
  the source and only observe it: \<open>trace\<close>, the fragments \<open>yielded\<close> by the provider so far
  (the fragment an iteration starts with is added before anything else happens), and
  \<open>finalized\<close>, the raw text of each segment that was rotated out, in order.

  \<open>iter_env\<close> holds what the environment does during one iteration of the loop: the two
  readings of \<open>time.monotonic()\<close>, and the outcome of each call the iteration may make.
  The transcoder is the parameter \<open>md\<close>, \<open>None\<close> where it raises, so that the branches of the
  source that handle a transcoding failure are part of the model; the transcoder of the
  source, which returns for every text, is \<open>md_source\<close> below.
\<close>

record relay_state =
  full_raw_response :: pystr
  current_message_text :: pystr
  current_message_id :: "message_id option"
  message_count :: nat
  last_edit_time :: rat
  formatting_failed :: bool
  trace :: "event list"
  yielded :: "pystr list"
  finalized :: "pystr list"

record iter_env =
  it_now :: rat
  it_edit_final :: "exc option"
  it_edit_final_raw :: "exc option"
  it_remove_markup :: "exc option"
  it_new_placeholder :: "exc + message_id"
  it_now_placeholder :: rat
  it_edit_mid :: "exc option"
  it_sleep :: "exc option"
  it_now_after_sleep :: rat

datatype flow = Continue | BreakNoMessage | BreakNoPlaceholder | Raised exc

definition log :: "call \<Rightarrow> reply \<Rightarrow> relay_state \<Rightarrow> relay_state" where
  "log c r s = s\<lparr>trace := trace s @ [(c, r)]\<rparr>"

definition render :: "(pystr \<Rightarrow> pystr option) \<Rightarrow> relay_state \<Rightarrow> pystr option" where
  "render md s =
     (if \<not> formatting_failed s then md (current_message_text s) else Some (current_message_text s))"

definition mode_of :: "relay_state \<Rightarrow> parse_mode" where
  "mode_of s = (if formatting_failed s then Plain else HTML)"

definition finalize_segment ::
  "(pystr \<Rightarrow> pystr option) \<Rightarrow> user_id \<Rightarrow> iter_env \<Rightarrow> relay_state \<Rightarrow> exc option \<times> relay_state" where
  "finalize_segment md user_id env s =
     (case render md s of
        None \<Rightarrow> (Some OtherException, s)
      | Some final_part_html \<Rightarrow>
          if final_part_html = [] then (None, s)
          else
            (case it_edit_final env of
               None \<Rightarrow>
                 (None, log (EditMessageText (current_message_id s) (Text final_part_html)
                               (mode_of s) (ProgressKeyboard user_id)) Done s)
             | Some e \<Rightarrow>
                 let s1 = log (EditMessageText (current_message_id s) (Text final_part_html)
                                 (mode_of s) (ProgressKeyboard user_id)) (Failed e) s
                 in if \<not> is_telegram_error e then (Some e, s1)
                    else if \<not> formatting_failed s1 then
                      (let s2 = s1\<lparr>formatting_failed := True\<rparr>
                       in if current_message_text s2 = [] then (None, s2)
                          else
                            (case it_edit_final_raw env of
                               None \<Rightarrow>
                                 (None, log (EditMessageText (current_message_id s2)
                                               (Text (current_message_text s2)) Plain NoMarkup) Done s2)
                             | Some e2 \<Rightarrow>
                                 let s3 = log (EditMessageText (current_message_id s2)
                                                 (Text (current_message_text s2)) Plain NoMarkup) (Failed e2) s2
                                 in if is_telegram_error e2
                                    then (None, s3\<lparr>current_message_id := None\<rparr>)
                                    else (Some e2, s3)))
                    else (None, s1\<lparr>current_message_id := None\<rparr>)))"

definition rotate_segment :: "user_id \<Rightarrow> pystr \<Rightarrow> iter_env \<Rightarrow> relay_state \<Rightarrow> flow \<times> relay_state" where
  "rotate_segment user_id chunk env s =
     (let s1 = s\<lparr>finalized := finalized s @ [current_message_text s],
                 current_message_text := chunk,
                 message_count := message_count s + 1\<rparr>
      in case it_remove_markup env of
           Some e \<Rightarrow>
             let s2 = log (EditMessageReplyMarkup (current_message_id s1) NoMarkup) (Failed e) s1
             in if is_telegram_error e then (BreakNoPlaceholder, s2\<lparr>current_message_id := None\<rparr>)
                else (Raised e, s2)
         | None \<Rightarrow>
             let s2 = log (EditMessageReplyMarkup (current_message_id s1) NoMarkup) Done s1
             in (case it_new_placeholder env of
                   Inl e \<Rightarrow>
                     let s3 = log (Answer Dots HTML (ProgressKeyboard user_id)) (Failed e) s2
                     in if is_telegram_error e then (BreakNoPlaceholder, s3\<lparr>current_message_id := None\<rparr>)
                        else (Raised e, s3)
                 | Inr new_id \<Rightarrow>
                     (Continue, (log (Answer Dots HTML (ProgressKeyboard user_id)) (Sent new_id) s2)
                                  \<lparr>current_message_id := Some new_id,
                                   last_edit_time := it_now_placeholder env\<rparr>)))"

definition edit_throttled ::
  "(pystr \<Rightarrow> pystr option) \<Rightarrow> ucd \<Rightarrow> user_id \<Rightarrow> pystr \<Rightarrow> iter_env \<Rightarrow> relay_state \<Rightarrow> flow \<times> relay_state" where
  "edit_throttled md d user_id chunk env s =
     (let s1 = s\<lparr>current_message_text := current_message_text s @ chunk\<rparr>
      in if it_now env - last_edit_time s1 > edit_interval then
           (case render md s1 of
              None \<Rightarrow> (Continue, s1)
            | Some html_to_send \<Rightarrow>
                let c = EditMessageText (current_message_id s1) (Text (html_to_send @ u ''...''))
                          (mode_of s1) (ProgressKeyboard user_id)
                in (case it_edit_mid env of
                      None \<Rightarrow> (Continue, (log c Done s1)\<lparr>last_edit_time := it_now env\<rparr>)
                    | Some (TelegramRetryAfter retry_after) \<Rightarrow>
                        let s2 = log c (Failed (TelegramRetryAfter retry_after)) s1
                        in (case it_sleep env of
                              None \<Rightarrow>
                                (Continue, (log (Sleep (retry_after + 1 / 10)) Done s2)
                                             \<lparr>last_edit_time := it_now_after_sleep env\<rparr>)
                            | Some e \<Rightarrow> (Raised e, log (Sleep (retry_after + 1 / 10)) (Failed e) s2))
                    | Some (TelegramAPIError msg) \<Rightarrow>
                        let s2 = log c (Failed (TelegramAPIError msg)) s1
                        in if message_unavailable d msg then (Continue, s2\<lparr>current_message_id := None\<rparr>)
                           else if \<not> formatting_failed s2 then (Continue, s2\<lparr>formatting_failed := True\<rparr>)
                           else (Continue, s2)
                    | Some OtherException \<Rightarrow> (Continue, log c (Failed OtherException) s1)
                    | Some CancelledError \<Rightarrow> (Raised CancelledError, log c (Failed CancelledError) s1)))
         else (Continue, s1))"

definition stream_body ::
  "(pystr \<Rightarrow> pystr option) \<Rightarrow> ucd \<Rightarrow> user_id \<Rightarrow> pystr \<Rightarrow> iter_env \<Rightarrow> relay_state \<Rightarrow> flow \<times> relay_state" where
  "stream_body md d user_id chunk env s =
     (let s0 = s\<lparr>yielded := yielded s @ [chunk]\<rparr>
      in if \<not> truthy_id (current_message_id s0) then (BreakNoMessage, s0)
         else
           let s1 = s0\<lparr>full_raw_response := full_raw_response s0 @ chunk\<rparr>;
               tentative_next_text = current_message_text s1 @ chunk;
               (html_to_check, s2) =
                 (case md tentative_next_text of
                    Some h \<Rightarrow> (h @ u ''...'', s1)
                  | None \<Rightarrow> (tentative_next_text @ u ''...'', s1\<lparr>formatting_failed := True\<rparr>))
           in if length html_to_check > TELEGRAM_MAX_LENGTH then
                (case finalize_segment md user_id env s2 of
                   (Some e, s3) \<Rightarrow> (Raised e, s3)
                 | (None, s3) \<Rightarrow> rotate_segment user_id chunk env s3)
              else edit_throttled md d user_id chunk env s2)"

fun stream_loop ::
  "(pystr \<Rightarrow> pystr option) \<Rightarrow> ucd \<Rightarrow> user_id \<Rightarrow> (pystr \<times> iter_env) list \<Rightarrow> exc option \<Rightarrow>
   relay_state \<Rightarrow> flow \<times> relay_state" where
  "stream_loop md d user_id [] stream_end s =
     (case stream_end of None \<Rightarrow> (Continue, s) | Some e \<Rightarrow> (Raised e, s))"
| "stream_loop md d user_id ((chunk, env) # rest) stream_end s =
     (case stream_body md d user_id chunk env s of
        (Continue, s') \<Rightarrow> stream_loop md d user_id rest stream_end s'
      | (fl, s') \<Rightarrow> (fl, s'))"

text \<open>
  After the loop: the last segment is finalized, or the placeholder is rewritten to the
  "no answer" notice; then the full raw answer is stored as the assistant turn.
\<close>

record final_env =
  fin_edit :: "exc option"
  fin_menu :: "exc option"
  fin_edit_raw :: "exc option"
  fin_send_new :: "exc option"
  fin_no_answer_edit :: "exc option"
  fin_no_answer_menu :: "exc option"
  fin_save_assistant :: "exc option"

definition finalize_fallback :: "final_env \<Rightarrow> relay_state \<Rightarrow> exc option \<times> relay_state" where
  "finalize_fallback env s =
     (let s1 = log (EditMessageText (current_message_id s) (Text (current_message_text s)) Plain NoMarkup)
                 (reply_of (fin_edit_raw env)) s
      in case fin_edit_raw env of
           None \<Rightarrow> (None, s1)
         | Some e \<Rightarrow>
             if \<not> is_telegram_error e then (Some e, s1)
             else
               (let s2 = log (Answer (Text (current_message_text s1)) Plain MainMenu)
                           (reply_of (fin_send_new env)) s1
                in case fin_send_new env of
                     None \<Rightarrow> (None, s2)
                   | Some e2 \<Rightarrow> if is_exception e2 then (None, s2) else (Some e2, s2)))"

definition finalize_last ::
  "(pystr \<Rightarrow> pystr option) \<Rightarrow> final_env \<Rightarrow> relay_state \<Rightarrow> exc option \<times> relay_state" where
  "finalize_last md env s =
     (if truthy_id (current_message_id s) \<and> current_message_text s \<noteq> [] then
        (case render md s of
           None \<Rightarrow> (Some OtherException, s)
         | Some final_html \<Rightarrow>
             let s1 = log (EditMessageText (current_message_id s) (Text final_html) (mode_of s) NoMarkup)
                        (reply_of (fin_edit env)) s
             in (case fin_edit env of
                   Some e \<Rightarrow> if is_telegram_error e then finalize_fallback env s1 else (Some e, s1)
                 | None \<Rightarrow>
                     let s2 = log (Answer Salute HTML MainMenu) (reply_of (fin_menu env)) s1
                     in (case fin_menu env of
                           None \<Rightarrow> (None, s2)
                         | Some e \<Rightarrow> if is_telegram_error e then finalize_fallback env s2 else (Some e, s2))))
      else if full_raw_response s = [] \<and> message_count s = 1 \<and> truthy_id (current_message_id s) then
        (let s1 = log (EditMessageText (current_message_id s) NoAnswerNotice HTML NoMarkup)
                    (reply_of (fin_no_answer_edit env)) s
         in case fin_no_answer_edit env of
              Some e \<Rightarrow> if is_telegram_error e then (None, s1) else (Some e, s1)
            | None \<Rightarrow>
                let s2 = log (Answer Salute HTML MainMenu) (reply_of (fin_no_answer_menu env)) s1
                in (case fin_no_answer_menu env of
                      None \<Rightarrow> (None, s2)
                    | Some e \<Rightarrow> if is_telegram_error e then (None, s2) else (Some e, s2)))
      else (None, s))"

section \<open>The handlers\<close>

text \<open>
  \<open>add_message_to_db\<close> inserts a row and deletes all but the newest
  \<open>CONVERSATION_HISTORY_LIMIT\<close> rows of that user (rows are kept in insertion order, which
  stands for the timestamp order of the SQL). \<open>get_or_create_user\<close> returns the row it
  found and stamps \<open>last_active_date\<close>, or inserts a row with the defaults of the table;
  \<open>create_fails\<close> is the branch in which the insert raises and \<open>None\<close> is returned.
  \<open>get_last_messages\<close> only feeds the provider, whose output is an input here, and is left
  out.

  A handler returns the exception that leaves it (\<open>None\<close> when it returns normally), the
  state of the world and the calls it made. \<open>try_body\<close> is the body of the \<open>try\<close> statement
  of \<open>message_handler\<close> and returns in addition the value of \<open>current_message_id\<close>, which
  the \<open>except\<close> clause reads.
\<close>

type_synonym conversation_table = "(user_id \<times> pystr \<times> pystr) list"

fun drop_oldest :: "nat \<Rightarrow> user_id \<Rightarrow> conversation_table \<Rightarrow> conversation_table" where
  "drop_oldest 0 user_id rows = rows"
| "drop_oldest (Suc n) user_id [] = []"
| "drop_oldest (Suc n) user_id (row # rows) =
     (if fst row = user_id then drop_oldest n user_id rows else row # drop_oldest (Suc n) user_id rows)"

definition add_message_to_db :: "conversation_table \<Rightarrow> user_id \<Rightarrow> pystr \<Rightarrow> pystr \<Rightarrow> conversation_table" where
  "add_message_to_db rows user_id role content =
     (let rows1 = rows @ [(user_id, role, content)];
          mine = length (filter (\<lambda>row. fst row = user_id) rows1)
      in drop_oldest (mine - CONVERSATION_HISTORY_LIMIT) user_id rows1)"

definition new_user_row :: "backend \<Rightarrow> int \<Rightarrow> user_row" where
  "new_user_row be now =
     \<lparr>is_admin = False, subscription_status = u ''inactive'', subscription_expires = PyNone,
      free_messages_today = 7, last_free_reset_date = stored_date be (date_of now),
      last_active_date = now\<rparr>"

definition get_or_create_user ::
  "backend \<Rightarrow> int \<Rightarrow> bool \<Rightarrow> users_table \<Rightarrow> user_id \<Rightarrow> user_row option \<times> users_table" where
  "get_or_create_user be now create_fails db user_id =
     (case get_user db user_id of
        Some user_data \<Rightarrow> (Some user_data, update_row db user_id (\<lambda>r. r\<lparr>last_active_date := now\<rparr>))
      | None \<Rightarrow>
          if create_fails then (None, db)
          else (let db1 = db(user_id \<mapsto> new_user_row be now) in (get_user db1 user_id, db1)))"

record handler_env =
  h_text :: pystr
  h_task :: task
  h_db_clock :: int
  h_image :: "exc option"
  h_image_error_reply :: "exc option"
  h_internal_error_reply :: "exc option"
  h_create_user_fails :: bool
  h_busy_reply :: "exc option"
  h_chat_action :: "exc option"
  h_save_user_turn :: "exc option"
  h_quota_clock :: int
  h_quota_reply :: "exc option"
  h_first_placeholder :: "exc + message_id"
  h_start_time :: rat
  h_fragments :: "(pystr \<times> iter_env) list"
  h_stream_end :: "exc option"
  h_final :: final_env
  h_error_notice :: "exc option"

definition initial_state :: "message_id \<Rightarrow> rat \<Rightarrow> event list \<Rightarrow> relay_state" where
  "initial_state placeholder_id t0 tr =
     \<lparr>full_raw_response = [], current_message_text = [], current_message_id = Some placeholder_id,
      message_count = 1, last_edit_time = t0, formatting_failed = False, trace = tr,
      yielded = [], finalized = []\<rparr>"

definition save_answer :: "final_env \<Rightarrow> user_id \<Rightarrow> relay_state \<Rightarrow> world \<Rightarrow> exc option \<times> world" where
  "save_answer env user_id s w =
     (if full_raw_response s \<noteq> [] then
        (case fin_save_assistant env of
           None \<Rightarrow> (None, w\<lparr>conversations :=
                              add_message_to_db (conversations w) user_id (u ''assistant'') (full_raw_response s)\<rparr>)
         | Some e \<Rightarrow> if is_exception e then (None, w) else (Some e, w))
      else (None, w))"

definition relay ::
  "(pystr \<Rightarrow> pystr option) \<Rightarrow> ucd \<Rightarrow> user_id \<Rightarrow> (pystr \<times> iter_env) list \<Rightarrow> exc option \<Rightarrow> final_env \<Rightarrow>
   relay_state \<Rightarrow> world \<Rightarrow> exc option \<times> relay_state \<times> world" where
  "relay md d user_id frags stream_end fenv s w =
     (case stream_loop md d user_id frags stream_end s of
        (Raised e, s1) \<Rightarrow> (Some e, s1, w)
      | (fl, s1) \<Rightarrow>
          (case finalize_last md fenv s1 of
             (Some e, s2) \<Rightarrow> (Some e, s2, w)
           | (None, s2) \<Rightarrow>
               (case save_answer fenv user_id s2 w of (r, w1) \<Rightarrow> (r, s2, w1))))"

definition try_body ::
  "backend \<Rightarrow> (pystr \<Rightarrow> pystr option) \<Rightarrow> ucd \<Rightarrow> user_id \<Rightarrow> handler_env \<Rightarrow> world \<Rightarrow>
   exc option \<times> message_id option \<times> world \<times> event list" where
  "try_body be md d user_id env w =
     (case h_save_user_turn env of
        Some e \<Rightarrow> (Some e, None, w, [])
      | None \<Rightarrow>
          let w1 = w\<lparr>conversations := add_message_to_db (conversations w) user_id (u ''user'') (h_text env)\<rparr>;
              (is_allowed, db1) = check_and_consume_limit be (h_quota_clock env) (users w1) user_id;
              w2 = w1\<lparr>users := db1\<rparr>
          in (case is_allowed of
                Inl TypeError \<Rightarrow> (Some OtherException, None, w2, [])
              | Inr False \<Rightarrow>
                  (h_quota_reply env, None, w2,
                   [(Answer QuotaNotice HTML SubscribeButton, reply_of (h_quota_reply env))])
              | Inr True \<Rightarrow>
                  (case h_first_placeholder env of
                     Inl e \<Rightarrow>
                       (if is_telegram_error e then None else Some e, None, w2,
                        [(Answer Hourglass HTML (ProgressKeyboard user_id), Failed e)])
                   | Inr placeholder_id \<Rightarrow>
                       (case relay md d user_id (h_fragments env) (h_stream_end env) (h_final env)
                               (initial_state placeholder_id (h_start_time env)
                                  [(Answer Hourglass HTML (ProgressKeyboard user_id), Sent placeholder_id)]) w2 of
                          (r, s, w3) \<Rightarrow> (r, current_message_id s, w3, trace s)))))"

definition except_clause ::
  "handler_env \<Rightarrow> exc option \<times> message_id option \<times> world \<times> event list \<Rightarrow> exc option \<times> world \<times> event list" where
  "except_clause env res =
     (case res of
        (None, cur, w, tr) \<Rightarrow> (None, w, tr)
      | (Some e, cur, w, tr) \<Rightarrow>
          if \<not> is_exception e then (Some e, w, tr)
          else
            let c = (if truthy_id cur then EditMessageText cur ErrorNotice HTML NoMarkup
                     else Answer ErrorNoticeRetry HTML NoMarkup);
                tr1 = tr @ [(c, reply_of (h_error_notice env))]
            in (case h_error_notice env of
                  None \<Rightarrow> (None, w, tr1)
                | Some e2 \<Rightarrow> if is_telegram_error e2 then (None, w, tr1) else (Some e2, w, tr1)))"

definition message_handler ::
  "backend \<Rightarrow> (pystr \<Rightarrow> pystr option) \<Rightarrow> ucd \<Rightarrow> user_id \<Rightarrow> handler_env \<Rightarrow> world \<Rightarrow>
   exc option \<times> world \<times> event list" where
  "message_handler be md d user_id env w =
     (if user_id \<in> pending_photo_prompts w then
        (let w1 = w\<lparr>pending_photo_prompts := pending_photo_prompts w - {user_id}\<rparr>;
             tr = [(GeneratePhoto (h_text env), reply_of (h_image env))]
         in case h_image env of
              None \<Rightarrow> (None, w1, tr)
            | Some e \<Rightarrow>
                if \<not> is_exception e then (Some e, w1, tr)
                else (h_image_error_reply env, w1,
                      tr @ [(Answer PhotoErrorNotice HTML MainMenu, reply_of (h_image_error_reply env))]))
      else if \<not> (has_db w \<and> has_settings w) then
        (h_internal_error_reply env, w,
         [(Answer InternalErrorNotice HTML NoMarkup, reply_of (h_internal_error_reply env))])
      else
        (case get_or_create_user be (h_db_clock env) (h_create_user_fails env) (users w) user_id of
           (None, db1) \<Rightarrow>
             (h_internal_error_reply env, w\<lparr>users := db1\<rparr>,
              [(Answer InternalErrorNotice HTML NoMarkup, reply_of (h_internal_error_reply env))])
         | (Some user_data, db1) \<Rightarrow>
             let w1 = w\<lparr>users := db1\<rparr>
             in if active_requests w1 user_id \<noteq> None then
                  (case h_busy_reply env of
                     None \<Rightarrow> (None, w1, [(Answer BusyNotice HTML (ProgressKeyboard user_id), Done)])
                   | Some e \<Rightarrow>
                       (if is_telegram_error e then None else Some e, w1,
                        [(Answer BusyNotice HTML (ProgressKeyboard user_id), Failed e)]))
                else
                  (let w2 = w1\<lparr>active_requests := (active_requests w1)(user_id \<mapsto> h_task env)\<rparr>
                   in case h_chat_action env of
                        Some e \<Rightarrow> (Some e, w2, [(SendChatAction, Failed e)])
                      | None \<Rightarrow>
                          (case except_clause env (try_body be md d user_id env w2) of
                             (r, w3, tr) \<Rightarrow>
                               (r, w3\<lparr>active_requests := (active_requests w3)(user_id := None)\<rparr>,
                                (SendChatAction, Done) # tr)))))"

subsection \<open>\<open>photo_handler\<close>\<close>

text \<open>
  The photo handler consumes quota before its \<open>try\<close> statement and looks at
  \<open>active_requests\<close> inside it, so that every way out of the \<open>try\<close> statement, the early
  return of a busy user included, runs the \<open>finally\<close> clause. Its throttle clock lives in
  \<open>globals()\<close> under a per-user name.
\<close>

record photo_iter_env =
  ph_now :: rat
  ph_edit :: "exc option"
  ph_sleep :: "exc option"
  ph_now_after_sleep :: rat

record photo_env =
  p_caption :: "pystr option"
  p_task :: task
  p_db_clock :: int
  p_internal_error_reply :: "exc option"
  p_create_user_fails :: bool
  p_quota_clock :: int
  p_quota_reply :: "exc option"
  p_busy_reply :: "exc option"
  p_download :: "exc option"
  p_save_user_turn :: "exc option"
  p_placeholder :: "exc + message_id"
  p_fragments :: "(pystr \<times> photo_iter_env) list"
  p_stream_end :: "exc option"
  p_final_edit :: "exc option"
  p_final_menu :: "exc option"
  p_final_edit_raw :: "exc option"
  p_final_menu_raw :: "exc option"
  p_display_failed_reply :: "exc option"
  p_save_assistant :: "exc option"
  p_error_reply :: "exc option"

record photo_state =
  full_response :: pystr
  edit_times :: "user_id \<rightharpoonup> rat"
  photo_trace :: "event list"

definition image_placeholder :: pystr where
  "image_placeholder = [91, 1048, 1079, 1086, 1073, 1088, 1072, 1078, 1077, 1085, 1080, 1077, 93]"

definition plog :: "call \<Rightarrow> reply \<Rightarrow> photo_state \<Rightarrow> photo_state" where
  "plog c r s = s\<lparr>photo_trace := photo_trace s @ [(c, r)]\<rparr>"

datatype photo_flow = PContinue | PBreak | PRaised exc

definition photo_body ::
  "(pystr \<Rightarrow> pystr option) \<Rightarrow> ucd \<Rightarrow> user_id \<Rightarrow> message_id \<Rightarrow> pystr \<Rightarrow> photo_iter_env \<Rightarrow>
   photo_state \<Rightarrow> photo_flow \<times> photo_state" where
  "photo_body md d user_id current_msg_id chunk env s =
     (let s1 = s\<lparr>full_response := full_response s @ chunk\<rparr>;
          last_edit = (case edit_times s1 user_id of None \<Rightarrow> 0 | Some t \<Rightarrow> t)
      in if ph_now env - last_edit > edit_interval then
           (case md (full_response s1 @ u ''...'') of
              None \<Rightarrow> (PRaised OtherException, s1)
            | Some preview_html \<Rightarrow>
                let c = EditMessageText (Some current_msg_id) (Text preview_html) HTML (ProgressKeyboard user_id)
                in (case ph_edit env of
                      None \<Rightarrow> (PContinue, (plog c Done s1)\<lparr>edit_times := (edit_times s1)(user_id \<mapsto> ph_now env)\<rparr>)
                    | Some (TelegramRetryAfter retry_after) \<Rightarrow>
                        let s2 = plog c (Failed (TelegramRetryAfter retry_after)) s1
                        in (case ph_sleep env of
                              None \<Rightarrow>
                                (PContinue, (plog (Sleep (retry_after + 1 / 10)) Done s2)
                                   \<lparr>edit_times := (edit_times s2)(user_id \<mapsto> ph_now_after_sleep env)\<rparr>)
                            | Some e \<Rightarrow> (PRaised e, plog (Sleep (retry_after + 1 / 10)) (Failed e) s2))
                    | Some (TelegramAPIError msg) \<Rightarrow>
                        let s2 = plog c (Failed (TelegramAPIError msg)) s1
                        in if py_in (u ''message to edit not found'') (py_lower d msg)
                           then (PBreak, s2) else (PContinue, s2)
                    | Some e \<Rightarrow> (PRaised e, plog c (Failed e) s1)))
         else (PContinue, s1))"

fun photo_loop ::
  "(pystr \<Rightarrow> pystr option) \<Rightarrow> ucd \<Rightarrow> user_id \<Rightarrow> message_id \<Rightarrow> (pystr \<times> photo_iter_env) list \<Rightarrow>
   exc option \<Rightarrow> photo_state \<Rightarrow> photo_flow \<times> photo_state" where
  "photo_loop md d user_id current_msg_id [] stream_end s =
     (case stream_end of None \<Rightarrow> (PContinue, s) | Some e \<Rightarrow> (PRaised e, s))"
| "photo_loop md d user_id current_msg_id ((chunk, env) # rest) stream_end s =
     (case photo_body md d user_id current_msg_id chunk env s of
        (PContinue, s') \<Rightarrow> photo_loop md d user_id current_msg_id rest stream_end s'
      | (fl, s') \<Rightarrow> (fl, s'))"

definition photo_fallback :: "photo_env \<Rightarrow> message_id \<Rightarrow> photo_state \<Rightarrow> exc option \<times> photo_state" where
  "photo_fallback env current_msg_id s =
     (let s1 = plog (EditMessageText (Some current_msg_id) (Text (full_response s)) HTML NoMarkup)
                 (reply_of (p_final_edit_raw env)) s;
          failed = (\<lambda>e s'. if \<not> is_exception e then (Some e, s')
                           else (p_display_failed_reply env,
                                 plog (Answer DisplayFailedNotice HTML NoMarkup)
                                   (reply_of (p_display_failed_reply env)) s'))
      in case p_final_edit_raw env of
           Some e \<Rightarrow> failed e s1
         | None \<Rightarrow>
             let s2 = plog (Answer Salute HTML MainMenu) (reply_of (p_final_menu_raw env)) s1
             in (case p_final_menu_raw env of None \<Rightarrow> (None, s2) | Some e \<Rightarrow> failed e s2))"

definition photo_finalize ::
  "(pystr \<Rightarrow> pystr option) \<Rightarrow> photo_env \<Rightarrow> message_id \<Rightarrow> photo_state \<Rightarrow> exc option \<times> photo_state" where
  "photo_finalize md env current_msg_id s =
     (case md (full_response s) of
        None \<Rightarrow> (Some OtherException, s)
      | Some final_html \<Rightarrow>
          let s1 = plog (EditMessageText (Some current_msg_id) (Text final_html) HTML NoMarkup)
                     (reply_of (p_final_edit env)) s
          in (case p_final_edit env of
                Some e \<Rightarrow> if is_telegram_error e then photo_fallback env current_msg_id s1 else (Some e, s1)
              | None \<Rightarrow>
                  let s2 = plog (Answer Salute HTML MainMenu) (reply_of (p_final_menu env)) s1
                  in (case p_final_menu env of
                        None \<Rightarrow> (None, s2)
                      | Some e \<Rightarrow> if is_telegram_error e then photo_fallback env current_msg_id s2
                                  else (Some e, s2))))"

definition photo_try ::
  "(pystr \<Rightarrow> pystr option) \<Rightarrow> ucd \<Rightarrow> user_id \<Rightarrow> photo_env \<Rightarrow> world \<Rightarrow> exc option \<times> world \<times> event list" where
  "photo_try md d user_id env w =
     (if active_requests w user_id \<noteq> None then
        (p_busy_reply env, w, [(Answer BusyNotice HTML (ProgressKeyboard user_id), reply_of (p_busy_reply env))])
      else
        (case p_download env of
           Some e \<Rightarrow> (Some e, w, [(DownloadFile, Failed e)])
         | None \<Rightarrow>
             (case p_save_user_turn env of
                Some e \<Rightarrow> (Some e, w, [(DownloadFile, Done)])
              | None \<Rightarrow>
                  let w1 = w\<lparr>conversations := add_message_to_db (conversations w) user_id (u ''user'')
                                (case p_caption env of None \<Rightarrow> image_placeholder
                                 | Some c \<Rightarrow> if c = [] then image_placeholder else c)\<rparr>;
                      w2 = w1\<lparr>active_requests := (active_requests w1)(user_id \<mapsto> p_task env)\<rparr>
                  in (case p_placeholder env of
                        Inl e \<Rightarrow> (Some e, w2, [(DownloadFile, Done),
                                     (Answer AnalysingNotice HTML (ProgressKeyboard user_id), Failed e)])
                      | Inr current_msg_id \<Rightarrow>
                          let s0 = \<lparr>full_response = [], edit_times = last_edit_globals w2,
                                    photo_trace = [(DownloadFile, Done),
                                      (Answer AnalysingNotice HTML (ProgressKeyboard user_id), Sent current_msg_id)]\<rparr>
                          in (case photo_loop md d user_id current_msg_id (p_fragments env) (p_stream_end env) s0 of
                                (PRaised e, s1) \<Rightarrow>
                                  (Some e, w2\<lparr>last_edit_globals := edit_times s1\<rparr>, photo_trace s1)
                              | (fl, s1) \<Rightarrow>
                                  (case photo_finalize md env current_msg_id s1 of
                                     (Some e, s2) \<Rightarrow>
                                       (Some e, w2\<lparr>last_edit_globals := edit_times s2\<rparr>, photo_trace s2)
                                   | (None, s2) \<Rightarrow>
                                       let w3 = w2\<lparr>last_edit_globals := edit_times s2\<rparr>
                                       in if full_response s2 = [] then (None, w3, photo_trace s2)
                                          else (case p_save_assistant env of
                                                  Some e \<Rightarrow> (Some e, w3, photo_trace s2)
                                                | None \<Rightarrow>
                                                    (None,
                                                     w3\<lparr>conversations := add_message_to_db (conversations w3)
                                                          user_id (u ''assistant'') (full_response s2)\<rparr>,
                                                     photo_trace s2))))))))"

definition photo_except :: "photo_env \<Rightarrow> exc option \<times> world \<times> event list \<Rightarrow> exc option \<times> world \<times> event list" where
  "photo_except env res =
     (case res of
        (None, w, tr) \<Rightarrow> (None, w, tr)
      | (Some e, w, tr) \<Rightarrow>
          if \<not> is_exception e then (Some e, w, tr)
          else (p_error_reply env, w, tr @ [(Answer PhotoErrorNotice HTML NoMarkup, reply_of (p_error_reply env))]))"

definition photo_handler ::
  "backend \<Rightarrow> (pystr \<Rightarrow> pystr option) \<Rightarrow> ucd \<Rightarrow> user_id \<Rightarrow> photo_env \<Rightarrow> world \<Rightarrow>
   exc option \<times> world \<times> event list" where
  "photo_handler be md d user_id env w =
     (if \<not> (has_db w \<and> has_settings w) then
        (p_internal_error_reply env, w,
         [(Answer InternalErrorNotice HTML NoMarkup, reply_of (p_internal_error_reply env))])
      else
        (case get_or_create_user be (p_db_clock env) (p_create_user_fails env) (users w) user_id of
           (None, db1) \<Rightarrow>
             (p_internal_error_reply env, w\<lparr>users := db1\<rparr>,
              [(Answer InternalErrorNotice HTML NoMarkup, reply_of (p_internal_error_reply env))])
         | (Some user_data, db1) \<Rightarrow>
             let (is_allowed, db2) = check_and_consume_limit be (p_quota_clock env) db1 user_id;
                 w1 = w\<lparr>users := db2\<rparr>
             in (case is_allowed of
                   Inl TypeError \<Rightarrow> (Some OtherException, w1, [])
                 | Inr False \<Rightarrow>
                     (p_quota_reply env, w1,
                      [(Answer QuotaNotice HTML SubscribeButton, reply_of (p_quota_reply env))])
                 | Inr True \<Rightarrow>
                     (case photo_except env (photo_try md d user_id env w1) of
                        (r, w2, tr) \<Rightarrow>
                          (r, w2\<lparr>active_requests := (active_requests w2)(user_id := None),
                                 last_edit_globals := (last_edit_globals w2)(user_id := None)\<rparr>,
                           tr)))))"


section \<open>Properties of the stream relay\<close>

subsection \<open>Concrete runs\<close>

text \<open>
  \<open>md_source d\<close> is the transcoder of the source as the handlers call it: it never raises.
  \<open>quiet_iter\<close> and \<open>quiet_final\<close> are environments in which every call succeeds, the clock
  stands at 0 (so that no throttled edit is due) and a new placeholder gets message id 2.
  A run of the examples below starts from \<open>initial_state 1 0 []\<close>: the first placeholder has
  message id 1.
\<close>

definition md_source :: "ucd \<Rightarrow> pystr \<Rightarrow> pystr option" where
  "md_source d t = Some (markdown_to_telegram_html d t)"

definition quiet_iter :: iter_env where
  "quiet_iter = \<lparr>it_now = 0, it_edit_final = None, it_edit_final_raw = None, it_remove_markup = None,
     it_new_placeholder = Inr 2, it_now_placeholder = 0, it_edit_mid = None, it_sleep = None,
     it_now_after_sleep = 0\<rparr>"

definition quiet_final :: final_env where
  "quiet_final = \<lparr>fin_edit = None, fin_menu = None, fin_edit_raw = None, fin_send_new = None,
     fin_no_answer_edit = None, fin_no_answer_menu = None, fin_save_assistant = None\<rparr>"


subsection \<open>The accumulated answer\<close>

text \<open>
  What the three parts of an iteration leave alone and what they change.
\<close>

lemma finalize_segment_frame:
  "finalize_segment md uid env s = (r, s') \<Longrightarrow>
     full_raw_response s' = full_raw_response s \<and>
     current_message_text s' = current_message_text s \<and>
     yielded s' = yielded s \<and> finalized s' = finalized s \<and>
     message_count s' = message_count s \<and> last_edit_time s' = last_edit_time s \<and>
     (formatting_failed s \<longrightarrow> formatting_failed s')"
  by (auto simp: finalize_segment_def log_def Let_def render_def split: option.splits if_splits)

lemma rotate_segment_frame:
  "rotate_segment uid chunk env s = (fl, s') \<Longrightarrow>
     full_raw_response s' = full_raw_response s \<and>
     current_message_text s' = chunk \<and>
     yielded s' = yielded s \<and> finalized s' = finalized s @ [current_message_text s] \<and>
     formatting_failed s' = formatting_failed s \<and> fl \<noteq> BreakNoMessage"
  by (auto simp: rotate_segment_def log_def Let_def split: option.splits if_splits sum.splits)

lemma edit_throttled_frame:
  "edit_throttled md d uid chunk env s = (fl, s') \<Longrightarrow>
     full_raw_response s' = full_raw_response s \<and>
     current_message_text s' = current_message_text s @ chunk \<and>
     yielded s' = yielded s \<and> finalized s' = finalized s \<and>
     (formatting_failed s \<longrightarrow> formatting_failed s') \<and> fl \<noteq> BreakNoMessage \<and> fl \<noteq> BreakNoPlaceholder"
  by (auto simp: edit_throttled_def log_def Let_def render_def split: option.splits if_splits exc.splits)

lemma stream_body_text:
  assumes "stream_body md d uid chunk env s = (fl, s')"
  shows "yielded s' = yielded s @ [chunk]"
    and "full_raw_response s' = (if fl = BreakNoMessage then full_raw_response s else full_raw_response s @ chunk)"
    and "(\<forall>e. fl \<noteq> Raised e) \<Longrightarrow>
           full_raw_response s = concat (finalized s) @ current_message_text s \<Longrightarrow>
           full_raw_response s' = concat (finalized s') @ current_message_text s'"
proof -
  let ?s0 = "s\<lparr>yielded := yielded s @ [chunk]\<rparr>"
  show "yielded s' = yielded s @ [chunk]"
    using assms
    by (auto simp: stream_body_def Let_def split: if_splits option.splits prod.splits
             dest!: finalize_segment_frame rotate_segment_frame edit_throttled_frame)
  show "full_raw_response s' = (if fl = BreakNoMessage then full_raw_response s else full_raw_response s @ chunk)"
    using assms
    by (auto simp: stream_body_def Let_def split: if_splits option.splits prod.splits
             dest!: finalize_segment_frame rotate_segment_frame edit_throttled_frame)
  show "full_raw_response s' = concat (finalized s') @ current_message_text s'"
    if "\<forall>e. fl \<noteq> Raised e" "full_raw_response s = concat (finalized s) @ current_message_text s"
    using assms that
    by (auto simp: stream_body_def Let_def split: if_splits option.splits prod.splits
             dest!: finalize_segment_frame rotate_segment_frame edit_throttled_frame)
qed


text \<open>
  How far the accumulation goes, for every transcoder, every stream and every outcome of
  the channel calls. The fragments taken from the provider are an initial part of its
  sequence, and all of it when the loop ends by exhaustion. The accumulated answer is
  the concatenation of the fragments taken, less the last one when the loop was left at
  the guard at its head; so the accumulated answer is the concatenation of all the
  fragments taken on every run that does not end at that guard. Unless an exception
  ended the loop, the accumulated answer is also the concatenation, in order, of the raw
  texts of all segments: the text of each rotated output unit followed by the text of the
  last segment, however many rotations there were.
\<close>

lemma stream_loop_full_raw:
  assumes run: "stream_loop md d uid frags stream_end s = (fl, s')"
    and full: "full_raw_response s = concat (yielded s)"
    and segs: "full_raw_response s = concat (finalized s) @ current_message_text s"
  shows "full_raw_response s' = concat (if fl = BreakNoMessage then butlast (yielded s') else yielded s') \<and>
         ((\<forall>e. fl \<noteq> Raised e) \<longrightarrow> full_raw_response s' = concat (finalized s') @ current_message_text s') \<and>
         (\<exists>k \<le> length frags. yielded s' = yielded s @ map fst (take k frags)) \<and>
         (fl = Continue \<longrightarrow> yielded s' = yielded s @ map fst frags)"
  using run full segs
proof (induction frags arbitrary: s)
  case Nil
  then show ?case by (auto split: option.splits)
next
  case (Cons a frags)
  obtain chunk env where a: "a = (chunk, env)" by (cases a)
  obtain fl1 s1 where body: "stream_body md d uid chunk env s = (fl1, s1)"
    by (cases "stream_body md d uid chunk env s")
  note y1 = stream_body_text(1) [OF body]
  note f1 = stream_body_text(2) [OF body]
  show ?case
  proof (cases "fl1 = Continue")
    case True
    with Cons.prems(1) a body have run1: "stream_loop md d uid frags stream_end s1 = (fl, s')" by simp
    have full1: "full_raw_response s1 = concat (yielded s1)"
      using y1 f1 True Cons.prems(2) by simp
    have segs1: "full_raw_response s1 = concat (finalized s1) @ current_message_text s1"
      using stream_body_text(3) [OF body] True Cons.prems(3) by simp
    from Cons.IH [OF run1 full1 segs1]
    obtain k where k: "k \<le> length frags" "yielded s' = yielded s1 @ map fst (take k frags)"
      and rest: "full_raw_response s' = concat (if fl = BreakNoMessage then butlast (yielded s') else yielded s')"
        "(\<forall>e. fl \<noteq> Raised e) \<longrightarrow> full_raw_response s' = concat (finalized s') @ current_message_text s'"
        "fl = Continue \<longrightarrow> yielded s' = yielded s1 @ map fst frags"
      by blast
    have "yielded s' = yielded s @ map fst (take (Suc k) (a # frags))"
      using k y1 a by simp
    moreover have "Suc k \<le> length (a # frags)" using k by simp
    ultimately have "\<exists>k \<le> length (a # frags). yielded s' = yielded s @ map fst (take k (a # frags))"
      by blast
    with rest y1 a show ?thesis by simp
  next
    case False
    with Cons.prems(1) a body have eq: "fl = fl1" "s' = s1" by (auto split: flow.splits)
    have "yielded s1 = yielded s @ map fst (take 1 (a # frags))" using y1 a by simp
    then have ex: "\<exists>k \<le> length (a # frags). yielded s1 = yielded s @ map fst (take k (a # frags))"
      by (intro exI [of _ 1]) simp
    have "full_raw_response s1 = concat (if fl1 = BreakNoMessage then butlast (yielded s1) else yielded s1)"
      using y1 f1 Cons.prems(2) by simp
    moreover have "(\<forall>e. fl1 \<noteq> Raised e) \<longrightarrow> full_raw_response s1 = concat (finalized s1) @ current_message_text s1"
      using stream_body_text(3) [OF body] Cons.prems(3) by simp
    ultimately show ?thesis using eq ex False by simp
  qed
qed

lemma stream_loop_full_raw_example:
  "full_raw_response (snd (stream_loop (md_source ascii_ucd) ascii_ucd 1
      [(u ''Hel'', quiet_iter), (u ''lo, '', quiet_iter), (u ''world'', quiet_iter), (u ''!'', quiet_iter)]
      None (initial_state 1 0 []))) = u ''Hello, world!'' \<and>
   yielded (snd (stream_loop (md_source ascii_ucd) ascii_ucd 1
      [(u ''Hel'', quiet_iter), (u ''lo, '', quiet_iter), (u ''world'', quiet_iter), (u ''!'', quiet_iter)]
      None (initial_state 1 0 []))) = [u ''Hel'', u ''lo, '', u ''world'', u ''!''] \<and>
   concat (finalized (snd (stream_loop (md_source ascii_ucd) ascii_ucd 1
      [(u ''Hel'', quiet_iter), (u ''lo, '', quiet_iter), (u ''world'', quiet_iter), (u ''!'', quiet_iter)]
      None (initial_state 1 0 [])))) @
   current_message_text (snd (stream_loop (md_source ascii_ucd) ascii_ucd 1
      [(u ''Hel'', quiet_iter), (u ''lo, '', quiet_iter), (u ''world'', quiet_iter), (u ''!'', quiet_iter)]
      None (initial_state 1 0 []))) = u ''Hello, world!''"
proof -
  let ?frags = "[(u ''Hel'', quiet_iter), (u ''lo, '', quiet_iter), (u ''world'', quiet_iter), (u ''!'', quiet_iter)]"
  let ?R = "stream_loop (md_source ascii_ucd) ascii_ucd 1 ?frags None (initial_state 1 0 [])"
  obtain fl s' where run: "?R = (fl, s')" by (cases ?R)
  have i1: "full_raw_response (initial_state 1 0 []) = concat (yielded (initial_state 1 0 []))"
    by (simp add: initial_state_def)
  have i2: "full_raw_response (initial_state 1 0 []) =
      concat (finalized (initial_state 1 0 [])) @ current_message_text (initial_state 1 0 [])"
    by (simp add: initial_state_def)
  have "fst ?R = Continue" by code_simp
  with run have fl: "fl = Continue" by simp
  have y0: "yielded (initial_state 1 0 []) = []" by (simp add: initial_state_def)
  note th = stream_loop_full_raw [OF run i1 i2]
  have nb: "fl \<noteq> BreakNoMessage" and nr: "\<forall>e. fl \<noteq> Raised e" using fl by simp_all
  from th have "full_raw_response s' = concat (if fl = BreakNoMessage then butlast (yielded s') else yielded s')"
    by blast
  with nb have a: "full_raw_response s' = concat (yielded s')" by simp
  from th nr have b: "full_raw_response s' = concat (finalized s') @ current_message_text s'"
    by blast
  have "yielded s' = yielded (initial_state 1 0 []) @ map fst ?frags" using th fl by blast
  then have c: "yielded s' = [u ''Hel'', u ''lo, '', u ''world'', u ''!'']" using y0 by simp
  from a b c show ?thesis unfolding run by simp
qed


text \<open>
  C1: after the provider's fragment sequence has been consumed, the accumulated full raw
  answer is to be the ordered concatenation of every fragment the provider yielded. The
  loop does not keep to that once an output unit is lost. The provider's sequence is
  \<open>a\<close>, \<open>b\<close>; the throttled edit that shows \<open>a\<close> fails because the message is gone, so
  \<open>current_message_id\<close> becomes \<open>None\<close> (the source notes there that the loop is not
  interrupted, since the next fragment may open a new message). The next fragment, \<open>b\<close>,
  is then taken from the provider, and the guard at the head of the loop leaves the loop
  before \<open>b\<close> is appended: both fragments have been yielded, their concatenation is \<open>ab\<close>,
  and the accumulated answer, which is what is stored as the assistant's turn, is \<open>a\<close>.
\<close>

theorem fragment_after_lost_unit_dropped:
  "(case stream_loop (md_source ascii_ucd) ascii_ucd 1
         [(u ''a'', quiet_iter\<lparr>it_now := 2,
              it_edit_mid := Some (TelegramAPIError (u ''Bad Request: message to edit not found''))\<rparr>),
          (u ''b'', quiet_iter)] None (initial_state 1 0 []) of
      (fl, s) \<Rightarrow> fl = BreakNoMessage \<and> yielded s = [u ''a'', u ''b''] \<and>
                  full_raw_response s = u ''a'' \<and> concat (yielded s) = u ''ab'')"
  by code_simp


subsection \<open>Formatting degradation\<close>

text \<open>
  \<open>shown_text\<close> is the answer text an event shows, with its parse mode. An event is a raw
  rendering of \<open>whole\<close> if any text it shows is sent with \<open>parse_mode=None\<close> and is a
  contiguous piece of \<open>whole\<close>, with or without the trailing \<open>...\<close> decoration.
\<close>

definition shown_text :: "event \<Rightarrow> (pystr \<times> parse_mode) option" where
  "shown_text ev =
     (case fst ev of
        EditMessageText i (Text t) pm mk \<Rightarrow> Some (t, pm)
      | Answer (Text t) pm mk \<Rightarrow> Some (t, pm)
      | _ \<Rightarrow> None)"

definition raw_render :: "pystr \<Rightarrow> event \<Rightarrow> bool" where
  "raw_render whole ev =
     (case shown_text ev of
        None \<Rightarrow> True
      | Some (t, pm) \<Rightarrow>
          pm = Plain \<and> (sublist t whole \<or> (\<exists>x. t = x @ u ''...'' \<and> sublist x whole)))"


lemma raw_render_mono: "sublist a b \<Longrightarrow> raw_render a ev \<Longrightarrow> raw_render b ev"
  unfolding raw_render_def
  by (auto split: option.splits dest: sublist_order.order_trans)

lemma raw_render_no_text [simp]:
  "raw_render whole (EditMessageReplyMarkup i mk, r)"
  "raw_render whole (Answer Dots pm mk, r)"
  "raw_render whole (Answer Salute pm mk, r)"
  "raw_render whole (Sleep t, r)"
  "raw_render whole (EditMessageText i NoAnswerNotice pm mk, r)"
  by (simp_all add: raw_render_def shown_text_def)

lemma raw_render_plain [simp]:
  "raw_render whole (EditMessageText i (Text t) Plain mk, r) =
     (sublist t whole \<or> (\<exists>x. t = x @ u ''...'' \<and> sublist x whole))"
  "raw_render whole (Answer (Text t) Plain mk, r) =
     (sublist t whole \<or> (\<exists>x. t = x @ u ''...'' \<and> sublist x whole))"
  by (simp_all add: raw_render_def shown_text_def)

lemma finalize_segment_raw:
  assumes "finalize_segment md uid env s = (r, s')" "formatting_failed s"
  shows "formatting_failed s' \<and>
         (\<exists>new. trace s' = trace s @ new \<and> (\<forall>ev \<in> set new. raw_render (current_message_text s) ev))"
  using assms
  by (auto simp: finalize_segment_def log_def Let_def render_def mode_of_def
           split: option.splits if_splits)

lemma rotate_segment_raw:
  assumes "rotate_segment uid chunk env s = (fl, s')"
  shows "\<exists>new. trace s' = trace s @ new \<and> (\<forall>ev \<in> set new. raw_render whole ev)"
  using assms
  by (auto simp: rotate_segment_def log_def Let_def split: option.splits if_splits sum.splits)

lemma edit_throttled_raw:
  assumes "edit_throttled md d uid chunk env s = (fl, s')" "formatting_failed s"
  shows "\<exists>new. trace s' = trace s @ new \<and>
           (\<forall>ev \<in> set new. raw_render (current_message_text s @ chunk) ev)"
  using assms
  by (auto simp: edit_throttled_def log_def Let_def render_def mode_of_def
           split: option.splits if_splits exc.splits)

lemma stream_body_raw:
  assumes body: "stream_body md d uid chunk env s = (fl, s')"
    and ff: "formatting_failed s \<or>
             (truthy_id (current_message_id s) \<and> md (current_message_text s @ chunk) = None)"
  shows "formatting_failed s' \<and>
         sublist (current_message_text s') (current_message_text s @ chunk) \<and>
         (fl = Continue \<longrightarrow> suffix (current_message_text s') (current_message_text s @ chunk)) \<and>
         (\<exists>new. trace s' = trace s @ new \<and>
                (\<forall>ev \<in> set new. raw_render (current_message_text s @ chunk) ev))"
proof (cases "truthy_id (current_message_id s)")
  case False
  with body ff show ?thesis by (auto simp: stream_body_def Let_def)
next
  case True
  let ?s1 = "s\<lparr>yielded := yielded s @ [chunk], full_raw_response := full_raw_response s @ chunk\<rparr>"
  let ?s2 = "(case md (current_message_text s @ chunk) of Some h \<Rightarrow> ?s1 | None \<Rightarrow> ?s1\<lparr>formatting_failed := True\<rparr>)"
  let ?over = "length (case md (current_message_text s @ chunk) of
                         Some h \<Rightarrow> h @ u ''...'' | None \<Rightarrow> (current_message_text s @ chunk) @ u ''...'')
               > TELEGRAM_MAX_LENGTH"
  have s2: "formatting_failed ?s2" "current_message_text ?s2 = current_message_text s" "trace ?s2 = trace s"
    using ff by (auto split: option.splits)
  show ?thesis
  proof (cases ?over)
    case over: True
    obtain r s3 where fin: "finalize_segment md uid env ?s2 = (r, s3)"
      by (cases "finalize_segment md uid env ?s2")
    from finalize_segment_raw [OF fin s2(1)] s2
    obtain new1 where n1: "formatting_failed s3" "trace s3 = trace s @ new1"
      "\<forall>ev \<in> set new1. raw_render (current_message_text s) ev" by auto
    have c3: "current_message_text s3 = current_message_text s"
      using finalize_segment_frame [OF fin] s2 by simp
    have n1': "\<forall>ev \<in> set new1. raw_render (current_message_text s @ chunk) ev"
      using n1(3) by (auto intro: raw_render_mono [of "current_message_text s"])
    show ?thesis
    proof (cases r)
      case (Some e)
      with body True over fin have "s' = s3" "fl = Raised e"
        by (auto simp: stream_body_def Let_def split: option.splits prod.splits if_splits)
      with n1 n1' c3 show ?thesis by auto
    next
      case None
      with body True over fin have rot: "rotate_segment uid chunk env s3 = (fl, s')"
        by (auto simp: stream_body_def Let_def split: option.splits prod.splits if_splits)
      from rotate_segment_raw [OF rot, of "current_message_text s @ chunk"]
      obtain new2 where n2: "trace s' = trace s3 @ new2"
        "\<forall>ev \<in> set new2. raw_render (current_message_text s @ chunk) ev" by auto
      from rotate_segment_frame [OF rot] n1(1)
      have "formatting_failed s'" "current_message_text s' = chunk" by simp_all
      with n1 n1' n2 show ?thesis by (auto simp: suffix_def)
    qed
  next
    case False
    with body True have thr: "edit_throttled md d uid chunk env ?s2 = (fl, s')"
      by (auto simp: stream_body_def Let_def split: option.splits prod.splits if_splits)
    from edit_throttled_raw [OF thr s2(1)] edit_throttled_frame [OF thr] s2
    show ?thesis by auto
  qed
qed

text \<open>
  In particular the iteration in which the transcoder raises on the tentative text is
  itself degraded: the flag is set before anything is rendered, and all of the
  iteration's renderings are raw.
\<close>

lemma transcoding_failure_degrades:
  assumes "stream_body md d uid chunk env s = (fl, s')"
    and "truthy_id (current_message_id s)" and "md (current_message_text s @ chunk) = None"
  shows "formatting_failed s' \<and>
         (\<exists>new. trace s' = trace s @ new \<and>
                (\<forall>ev \<in> set new. raw_render (current_message_text s @ chunk) ev))"
  using stream_body_raw [OF assms(1)] assms(2,3) by blast

text \<open>
  So is the rest of a finalization whose edit Telegram rejects: the flag is set and the
  one rendering that may follow is the raw text.
\<close>

lemma rejected_finalization_degrades:
  assumes "finalize_segment md uid env s = (r, s')"
    and "render md s = Some html" and "html \<noteq> []"
    and "it_edit_final env = Some e" and "is_telegram_error e"
  shows "formatting_failed s' \<and>
         (\<exists>new. trace s' = trace s @
              (EditMessageText (current_message_id s) (Text html) (mode_of s) (ProgressKeyboard uid), Failed e) # new \<and>
            (\<forall>ev \<in> set new. raw_render (current_message_text s) ev))"
  using assms
  by (auto simp: finalize_segment_def log_def Let_def split: option.splits if_splits)

lemma stream_loop_raw:
  assumes "stream_loop md d uid frags stream_end s = (fl, s')" "formatting_failed s"
  shows "formatting_failed s' \<and>
         sublist (current_message_text s') (current_message_text s @ concat (map fst frags)) \<and>
         (\<exists>new. trace s' = trace s @ new \<and>
                (\<forall>ev \<in> set new. raw_render (current_message_text s @ concat (map fst frags)) ev))"
  using assms
proof (induction frags arbitrary: s)
  case Nil
  then show ?case by (auto split: option.splits)
next
  case (Cons a frags)
  obtain chunk env where a: "a = (chunk, env)" by (cases a)
  obtain fl1 s1 where body: "stream_body md d uid chunk env s = (fl1, s1)"
    by (cases "stream_body md d uid chunk env s")
  let ?whole = "current_message_text s @ concat (map fst (a # frags))"
  from stream_body_raw [OF body disjI1 [OF Cons.prems(2)]]
  obtain new1 where b: "formatting_failed s1"
    "sublist (current_message_text s1) (current_message_text s @ chunk)"
    "trace s1 = trace s @ new1"
    "\<forall>ev \<in> set new1. raw_render (current_message_text s @ chunk) ev"
    and suf: "fl1 = Continue \<longrightarrow> suffix (current_message_text s1) (current_message_text s @ chunk)"
    by auto
  have whole: "?whole = (current_message_text s @ chunk) @ concat (map fst frags)"
    using a by simp
  have sub1: "sublist (current_message_text s @ chunk) ?whole"
    unfolding whole by (rule sublist_append_rightI)
  have new1: "\<forall>ev \<in> set new1. raw_render ?whole ev"
    using b(4) sub1 by (auto intro: raw_render_mono)
  show ?case
  proof (cases "fl1 = Continue")
    case True
    with Cons.prems(1) a body have run1: "stream_loop md d uid frags stream_end s1 = (fl, s')" by simp
    from Cons.IH [OF run1 b(1)]
    obtain new2 where r: "formatting_failed s'"
      "sublist (current_message_text s') (current_message_text s1 @ concat (map fst frags))"
      "trace s' = trace s1 @ new2"
      "\<forall>ev \<in> set new2. raw_render (current_message_text s1 @ concat (map fst frags)) ev" by auto
    from suf True obtain p where p: "current_message_text s @ chunk = p @ current_message_text s1"
      by (auto simp: suffix_def)
    have "?whole = p @ (current_message_text s1 @ concat (map fst frags))"
      unfolding whole p by simp
    then have sub2: "sublist (current_message_text s1 @ concat (map fst frags)) ?whole"
      by (metis sublist_append_leftI)
    have "\<forall>ev \<in> set new2. raw_render ?whole ev"
      using r(4) sub2 by (auto intro: raw_render_mono)
    moreover have "sublist (current_message_text s') ?whole"
      using r(2) sub2 by (rule sublist_order.order_trans)
    ultimately show ?thesis using r(1,3) b(3) new1 by auto
  next
    case False
    with Cons.prems(1) a body have eq: "fl = fl1" "s' = s1" by (auto split: flow.splits)
    have "sublist (current_message_text s1) ?whole"
      using b(2) sub1 by (rule sublist_order.order_trans)
    with eq b new1 show ?thesis by auto
  qed
qed

lemma finalize_fallback_raw:
  assumes "finalize_fallback env s = (r, s')" "formatting_failed s"
  shows "formatting_failed s' \<and>
         (\<exists>new. trace s' = trace s @ new \<and> (\<forall>ev \<in> set new. raw_render (current_message_text s) ev))"
  using assms
  by (auto simp: finalize_fallback_def log_def Let_def split: option.splits if_splits)

lemma finalize_last_raw:
  assumes "finalize_last md env s = (r, s')" "formatting_failed s"
  shows "formatting_failed s' \<and>
         (\<exists>new. trace s' = trace s @ new \<and> (\<forall>ev \<in> set new. raw_render (current_message_text s) ev))"
proof -
  have fb: "\<And>s0 r0 s0'. finalize_fallback env s0 = (r0, s0') \<Longrightarrow> formatting_failed s0 \<Longrightarrow>
      current_message_text s0 = current_message_text s \<Longrightarrow>
      formatting_failed s0' \<and> (\<exists>new. trace s0' = trace s0 @ new \<and> (\<forall>ev \<in> set new. raw_render (current_message_text s) ev))"
    using finalize_fallback_raw by metis
  show ?thesis
    using assms
    by (auto simp: finalize_last_def log_def Let_def render_def mode_of_def
             split: option.splits if_splits dest!: fb)
qed

lemma stream_loop_append:
  "stream_loop md d uid (pre @ post) stream_end s =
     (case stream_loop md d uid pre None s of
        (Continue, s1) \<Rightarrow> stream_loop md d uid post stream_end s1
      | other \<Rightarrow> other)"
proof (induction pre arbitrary: s)
  case Nil
  then show ?case by simp
next
  case (Cons a pre)
  obtain chunk env where a: "a = (chunk, env)" by (cases a)
  obtain fl1 s1 where body: "stream_body md d uid chunk env s = (fl1, s1)"
    by (cases "stream_body md d uid chunk env s")
  show ?case using a body Cons.IH by (cases fl1) simp_all
qed


text \<open>
  C7: within one generation of the streaming message handler the formatting-degraded flag
  is monotone. If it is true after some initial part of the stream (\<open>pre\<close>, however the
  loop fared on it), it is true at the end of the generation, and every rendering after
  that point (in the rest of the loop and in the finalization) shows raw text: it is sent
  without a parse mode and is a piece of the untranscoded text, namely of the current
  segment's text followed by the remaining fragments.
\<close>

theorem formatting_failed_sticky:
  assumes pre: "stream_loop md d uid pre None s0 = (fl1, s1)"
    and ff: "formatting_failed s1"
    and run: "relay md d uid (pre @ post) stream_end fenv s0 w = (r, s2, w')"
  shows "formatting_failed s2 \<and>
         (\<exists>new. trace s2 = trace s1 @ new \<and>
                (\<forall>ev \<in> set new. raw_render (current_message_text s1 @ concat (map fst post)) ev))"
proof -
  let ?whole = "current_message_text s1 @ concat (map fst post)"
  obtain fl s3 where whole: "stream_loop md d uid (pre @ post) stream_end s0 = (fl, s3)"
    by (cases "stream_loop md d uid (pre @ post) stream_end s0")
  have "formatting_failed s3 \<and> sublist (current_message_text s3) ?whole \<and>
        (\<exists>new. trace s3 = trace s1 @ new \<and> (\<forall>ev \<in> set new. raw_render ?whole ev))"
  proof (cases "fl1 = Continue")
    case True
    with pre whole have "stream_loop md d uid post stream_end s1 = (fl, s3)"
      by (simp add: stream_loop_append)
    from stream_loop_raw [OF this ff] show ?thesis .
  next
    case False
    with pre whole have "s3 = s1"
      by (cases fl1) (simp_all add: stream_loop_append)
    with ff show ?thesis by simp
  qed
  then obtain new1 where l: "formatting_failed s3" "sublist (current_message_text s3) ?whole"
    "trace s3 = trace s1 @ new1" "\<forall>ev \<in> set new1. raw_render ?whole ev" by auto
  show ?thesis
  proof (cases "\<exists>e. fl = Raised e")
    case True
    with run whole have "s2 = s3" by (auto simp: relay_def)
    with l show ?thesis by auto
  next
    case False
    obtain r1 s4 where fin: "finalize_last md fenv s3 = (r1, s4)"
      by (cases "finalize_last md fenv s3")
    from False run whole fin have "s2 = s4"
      by (cases fl; cases r1) (auto simp: relay_def split: prod.splits)
    moreover from finalize_last_raw [OF fin l(1)]
    obtain new2 where f: "formatting_failed s4" "trace s4 = trace s3 @ new2"
      "\<forall>ev \<in> set new2. raw_render (current_message_text s3) ev" by auto
    moreover have "\<forall>ev \<in> set new2. raw_render ?whole ev"
      using f(3) l(2) by (auto intro: raw_render_mono)
    ultimately show ?thesis using l by auto
  qed
qed

theorem formatting_failed_sticky_witness:
  "(case relay (md_source ascii_ucd) ascii_ucd 1
         ([(u ''Hi'', quiet_iter\<lparr>it_now := 2,
              it_edit_mid := Some (TelegramAPIError (u ''Bad Request: unsupported start tag''))\<rparr>)] @
          [(u '' *x*'', quiet_iter\<lparr>it_now := 4\<rparr>)])
         None quiet_final (initial_state 1 0 []) world0 of
      (r, s, w) \<Rightarrow>
        formatting_failed s \<and>
        trace s =
          [(EditMessageText (Some 1) (Text (u ''Hi...'')) HTML (ProgressKeyboard 1),
              Failed (TelegramAPIError (u ''Bad Request: unsupported start tag''))),
           (EditMessageText (Some 1) (Text (u ''Hi *x*...'')) Plain (ProgressKeyboard 1), Done),
           (EditMessageText (Some 1) (Text (u ''Hi *x*'')) Plain NoMarkup, Done),
           (Answer Salute HTML MainMenu, Done)])"
proof -
  let ?pre = "[(u ''Hi'', quiet_iter\<lparr>it_now := 2,
              it_edit_mid := Some (TelegramAPIError (u ''Bad Request: unsupported start tag''))\<rparr>)]"
  let ?post = "[(u '' *x*'', quiet_iter\<lparr>it_now := 4\<rparr>)]"
  let ?P = "stream_loop (md_source ascii_ucd) ascii_ucd 1 ?pre None (initial_state 1 0 [])"
  let ?R = "relay (md_source ascii_ucd) ascii_ucd 1 (?pre @ ?post) None quiet_final (initial_state 1 0 []) world0"
  obtain fl1 s1 where pre: "?P = (fl1, s1)" by (cases ?P)
  have "fst ?P = Continue \<and> formatting_failed (snd ?P)" by code_simp
  with pre have ff: "formatting_failed s1" by simp
  obtain r s2 w' where run: "?R = (r, s2, w')" by (cases ?R)
  from formatting_failed_sticky [OF pre ff run]
  have sticky: "formatting_failed s2" by simp
  have "trace (fst (snd ?R)) =
          [(EditMessageText (Some 1) (Text (u ''Hi...'')) HTML (ProgressKeyboard 1),
              Failed (TelegramAPIError (u ''Bad Request: unsupported start tag''))),
           (EditMessageText (Some 1) (Text (u ''Hi *x*...'')) Plain (ProgressKeyboard 1), Done),
           (EditMessageText (Some 1) (Text (u ''Hi *x*'')) Plain NoMarkup, Done),
           (Answer Salute HTML MainMenu, Done)]"
    by code_simp
  with sticky show ?thesis unfolding run by simp
qed


subsection \<open>Segment rotation\<close>

text \<open>
  In the trace of the loop, a creation is the sending of the \<open>...\<close> placeholder of a new
  segment, and a removal is the call that takes the keyboard (the cancel affordance) off
  the current unit.
\<close>

definition is_creation :: "event \<Rightarrow> bool" where
  "is_creation ev = (case fst ev of Answer ct pm mk \<Rightarrow> ct = Dots | _ \<Rightarrow> False)"

definition is_removal :: "event \<Rightarrow> bool" where
  "is_removal ev = (case fst ev of EditMessageReplyMarkup i mk \<Rightarrow> mk = NoMarkup | _ \<Rightarrow> False)"

definition removal_done :: "event \<Rightarrow> bool" where
  "removal_done ev = (is_removal ev \<and> snd ev = Done)"

definition removal_failed :: "event \<Rightarrow> bool" where
  "removal_failed ev = (is_removal ev \<and> snd ev \<noteq> Done)"

definition creations_follow_removal :: "event list \<Rightarrow> bool" where
  "creations_follow_removal tr =
     (\<forall>i < length tr. is_creation (tr ! i) \<longrightarrow> 0 < i \<and> removal_done (tr ! (i - 1)))"

definition failed_removal_ends :: "event list \<Rightarrow> flow \<Rightarrow> bool" where
  "failed_removal_ends tr fl =
     (\<forall>i < length tr. removal_failed (tr ! i) \<longrightarrow>
        Suc i = length tr \<and> (fl = BreakNoPlaceholder \<or> (\<exists>e. fl = Raised e)))"

definition plain_events :: "event list \<Rightarrow> bool" where
  "plain_events tr = (\<forall>ev \<in> set tr. \<not> is_creation ev \<and> \<not> is_removal ev)"


lemma plain_events_simps [simp]:
  "plain_events []"
  "plain_events (ev # tr) = (\<not> is_creation ev \<and> \<not> is_removal ev \<and> plain_events tr)"
  "plain_events (a @ b) = (plain_events a \<and> plain_events b)"
  by (auto simp: plain_events_def)

lemma event_kinds [simp]:
  "\<not> is_creation (EditMessageText i c pm mk, r)" "\<not> is_removal (EditMessageText i c pm mk, r)"
  "\<not> is_creation (Sleep t, r)" "\<not> is_removal (Sleep t, r)"
  "\<not> is_creation (EditMessageReplyMarkup i mk, r)" "is_removal (EditMessageReplyMarkup i NoMarkup, r)"
  "is_creation (Answer Dots pm mk, r)" "\<not> is_removal (Answer c pm mk, r)"
  by (simp_all add: is_creation_def is_removal_def)

lemma creations_follow_plain: "plain_events a \<Longrightarrow> creations_follow_removal a"
  by (auto simp: creations_follow_removal_def plain_events_def)

lemma creations_follow_append:
  assumes "creations_follow_removal a" "creations_follow_removal b"
  shows "creations_follow_removal (a @ b)"
  unfolding creations_follow_removal_def
proof (intro allI impI)
  fix i assume i: "i < length (a @ b)" and c: "is_creation ((a @ b) ! i)"
  show "0 < i \<and> removal_done ((a @ b) ! (i - 1))"
  proof (cases "i < length a")
    case True
    with c have "is_creation (a ! i)" by (simp add: nth_append)
    with assms(1) True have "0 < i \<and> removal_done (a ! (i - 1))"
      by (simp add: creations_follow_removal_def)
    moreover from True have "i - 1 < length a" by arith
    ultimately show ?thesis by (simp add: nth_append)
  next
    case False
    let ?j = "i - length a"
    from False i have j: "?j < length b" by simp
    from False c have "is_creation (b ! ?j)" by (simp add: nth_append)
    with assms(2) j have jj: "0 < ?j \<and> removal_done (b ! (?j - 1))"
      unfolding creations_follow_removal_def by blast
    then have "\<not> i - 1 < length a" by arith
    moreover have "i - 1 - length a = ?j - 1" by arith
    ultimately show ?thesis using jj by (simp add: nth_append)
  qed
qed

lemma creations_follow_pair:
  "removal_done e1 \<Longrightarrow> \<not> is_creation e1 \<Longrightarrow> creations_follow_removal [e1, e2]"
  by (auto simp: creations_follow_removal_def less_Suc_eq)

lemma no_failed_plain: "plain_events a \<Longrightarrow> \<forall>ev \<in> set a. \<not> removal_failed ev"
  by (auto simp: plain_events_def removal_failed_def)

lemma failed_removal_ends_append:
  assumes "\<forall>ev \<in> set a. \<not> removal_failed ev" "failed_removal_ends b fl"
  shows "failed_removal_ends (a @ b) fl"
  unfolding failed_removal_ends_def
proof (intro allI impI)
  fix i assume i: "i < length (a @ b)" and f: "removal_failed ((a @ b) ! i)"
  have "\<not> i < length a"
  proof
    assume "i < length a"
    with f have "removal_failed (a ! i)" "a ! i \<in> set a" by (simp_all add: nth_append)
    with assms(1) show False by blast
  qed
  then have ge: "length a \<le> i" by simp
  with i have j: "i - length a < length b" by simp
  from ge f have "removal_failed (b ! (i - length a))" by (simp add: nth_append)
  with assms(2) j have "Suc (i - length a) = length b \<and> (fl = BreakNoPlaceholder \<or> (\<exists>e. fl = Raised e))"
    unfolding failed_removal_ends_def by blast
  with ge show "Suc i = length (a @ b) \<and> (fl = BreakNoPlaceholder \<or> (\<exists>e. fl = Raised e))"
    by auto
qed

lemma failed_removal_ends_none:
  "\<forall>ev \<in> set a. \<not> removal_failed ev \<Longrightarrow> failed_removal_ends a fl"
  by (auto simp: failed_removal_ends_def)

lemma finalize_segment_events:
  "finalize_segment md uid env s = (r, s') \<Longrightarrow> \<exists>a. trace s' = trace s @ a \<and> plain_events a"
  by (auto simp: finalize_segment_def log_def Let_def split: option.splits if_splits)

lemma edit_throttled_events:
  "edit_throttled md d uid chunk env s = (fl, s') \<Longrightarrow> \<exists>a. trace s' = trace s @ a \<and> plain_events a"
  by (auto simp: edit_throttled_def log_def Let_def split: option.splits if_splits exc.splits)

lemma rotate_segment_events:
  "rotate_segment uid chunk env s = (fl, s') \<Longrightarrow>
     \<exists>b. trace s' = trace s @ b \<and> creations_follow_removal b \<and> failed_removal_ends b fl \<and>
         (fl = Continue \<longrightarrow> (\<forall>ev \<in> set b. \<not> removal_failed ev))"
  by (auto simp: rotate_segment_def log_def Let_def creations_follow_removal_def failed_removal_ends_def
                 removal_done_def removal_failed_def less_Suc_eq
           split: option.splits if_splits sum.splits)

lemma stream_body_events:
  assumes "stream_body md d uid chunk env s = (fl, s')"
  shows "\<exists>new. trace s' = trace s @ new \<and> creations_follow_removal new \<and> failed_removal_ends new fl \<and>
           (fl = Continue \<longrightarrow> (\<forall>ev \<in> set new. \<not> removal_failed ev))"
proof (cases "truthy_id (current_message_id s)")
  case False
  with assms have "trace s' = trace s @ []" by (auto simp: stream_body_def Let_def)
  then show ?thesis
    by (intro exI [of _ "[]"]) (simp add: creations_follow_removal_def failed_removal_ends_def)
next
  case True
  let ?s1 = "s\<lparr>yielded := yielded s @ [chunk], full_raw_response := full_raw_response s @ chunk\<rparr>"
  let ?s2 = "(case md (current_message_text s @ chunk) of Some h \<Rightarrow> ?s1 | None \<Rightarrow> ?s1\<lparr>formatting_failed := True\<rparr>)"
  let ?over = "length (case md (current_message_text s @ chunk) of
                         Some h \<Rightarrow> h @ u ''...'' | None \<Rightarrow> (current_message_text s @ chunk) @ u ''...'')
               > TELEGRAM_MAX_LENGTH"
  have t2: "trace ?s2 = trace s" by (auto split: option.splits)
  show ?thesis
  proof (cases ?over)
    case over: True
    obtain r s3 where fin: "finalize_segment md uid env ?s2 = (r, s3)"
      by (cases "finalize_segment md uid env ?s2")
    from finalize_segment_events [OF fin] t2
    obtain a where a: "trace s3 = trace s @ a" "plain_events a" by auto
    show ?thesis
    proof (cases r)
      case (Some e)
      with assms True over fin have "s' = s3" "fl = Raised e"
        by (auto simp: stream_body_def Let_def split: option.splits prod.splits if_splits)
      with a show ?thesis
        by (intro exI [of _ a])
           (simp add: creations_follow_plain failed_removal_ends_none no_failed_plain)
    next
      case None
      with assms True over fin have rot: "rotate_segment uid chunk env s3 = (fl, s')"
        by (auto simp: stream_body_def Let_def split: option.splits prod.splits if_splits)
      from rotate_segment_events [OF rot]
      obtain b where b: "trace s' = trace s3 @ b" "creations_follow_removal b" "failed_removal_ends b fl"
        "fl = Continue \<longrightarrow> (\<forall>ev \<in> set b. \<not> removal_failed ev)" by auto
      have "trace s' = trace s @ (a @ b)" using a b by simp
      moreover have "creations_follow_removal (a @ b)"
        by (rule creations_follow_append [OF creations_follow_plain [OF a(2)] b(2)])
      moreover have "failed_removal_ends (a @ b) fl"
        by (rule failed_removal_ends_append [OF no_failed_plain [OF a(2)] b(3)])
      moreover have "fl = Continue \<longrightarrow> (\<forall>ev \<in> set (a @ b). \<not> removal_failed ev)"
        using b(4) no_failed_plain [OF a(2)] by auto
      ultimately show ?thesis by blast
    qed
  next
    case False
    with assms True have thr: "edit_throttled md d uid chunk env ?s2 = (fl, s')"
      by (auto simp: stream_body_def Let_def split: option.splits prod.splits if_splits)
    from edit_throttled_events [OF thr] t2
    obtain a where a: "trace s' = trace s @ a" "plain_events a" by auto
    then show ?thesis
      by (intro exI [of _ a])
         (simp add: creations_follow_plain failed_removal_ends_none no_failed_plain)
  qed
qed


lemma markdown_lowercase:
  assumes "t \<noteq> []" "\<forall>c \<in> set t. 97 \<le> c \<and> c \<le> 122"
  shows "markdown_to_telegram_html d t = t"
proof (rule markdown_inert [OF assms(1)])
  show "set t \<subseteq> Collect inert" using assms(2) by (auto simp: inert_def)
  have "hd t \<in> set t" "last t \<in> set t" using assms(1) by simp_all
  with assms(2) have "97 \<le> hd t \<and> hd t \<le> 122" "97 \<le> last t \<and> last t \<le> 122" by blast+
  then show "\<not> is_space d (hd t)" "\<not> is_space d (last t)" by (auto simp: is_space_def)
qed

lemma md_source_lowercase:
  "t \<noteq> [] \<Longrightarrow> \<forall>c \<in> set t. 97 \<le> c \<and> c \<le> 122 \<Longrightarrow> md_source d t = Some t"
  by (simp add: md_source_def markdown_lowercase)

lemma body1:
  "stream_body (md_source ascii_ucd) ascii_ucd 1 (replicate 3997 97) quiet_iter (initial_state 1 0 [])
     = (Continue, (initial_state 1 0 [])\<lparr>full_raw_response := replicate 3997 97,
                     current_message_text := replicate 3997 97, yielded := [replicate 3997 97]\<rparr>)"
  by (simp add: stream_body_def initial_state_def truthy_id_def md_source_lowercase
        TELEGRAM_MAX_LENGTH_def edit_throttled_def quiet_iter_def edit_interval_def Let_def)

lemma body2_fail:
  "stream_body (md_source ascii_ucd) ascii_ucd 1 (u ''b'')
       (quiet_iter\<lparr>it_remove_markup := Some (TelegramRetryAfter 5)\<rparr>)
       ((initial_state 1 0 [])\<lparr>full_raw_response := replicate 3997 97,
                     current_message_text := replicate 3997 97, yielded := [replicate 3997 97]\<rparr>)
     = (BreakNoPlaceholder,
        \<lparr>full_raw_response = replicate 3997 97 @ u ''b'', current_message_text = u ''b'',
         current_message_id = None, message_count = 2, last_edit_time = 0, formatting_failed = False,
         trace = [(EditMessageText (Some 1) (Text (replicate 3997 97)) HTML (ProgressKeyboard 1), Done),
                  (EditMessageReplyMarkup (Some 1) NoMarkup, Failed (TelegramRetryAfter 5))],
         yielded = [replicate 3997 97, u ''b''], finalized = [replicate 3997 97]\<rparr>)"
  by (simp add: stream_body_def initial_state_def truthy_id_def md_source_lowercase
        TELEGRAM_MAX_LENGTH_def finalize_segment_def rotate_segment_def render_def mode_of_def log_def
        quiet_iter_def is_telegram_error_def Let_def)

lemma body2_ok:
  "stream_body (md_source ascii_ucd) ascii_ucd 1 (u ''b'') quiet_iter
       ((initial_state 1 0 [])\<lparr>full_raw_response := replicate 3997 97,
                     current_message_text := replicate 3997 97, yielded := [replicate 3997 97]\<rparr>)
     = (Continue,
        \<lparr>full_raw_response = replicate 3997 97 @ u ''b'', current_message_text = u ''b'',
         current_message_id = Some 2, message_count = 2, last_edit_time = 0, formatting_failed = False,
         trace = [(EditMessageText (Some 1) (Text (replicate 3997 97)) HTML (ProgressKeyboard 1), Done),
                  (EditMessageReplyMarkup (Some 1) NoMarkup, Done),
                  (Answer Dots HTML (ProgressKeyboard 1), Sent 2)],
         yielded = [replicate 3997 97, u ''b''], finalized = [replicate 3997 97]\<rparr>)"
  by (simp add: stream_body_def initial_state_def truthy_id_def md_source_lowercase
        TELEGRAM_MAX_LENGTH_def finalize_segment_def rotate_segment_def render_def mode_of_def log_def
        quiet_iter_def is_telegram_error_def Let_def)


text \<open>
  The order of the calls, for every transcoder, every stream and every outcome of the
  channel calls: in the trace of the loop every creation of an output unit directly
  follows a removal of the cancel affordance that succeeded, so that unit N+1 is never
  created before the removal on unit N has been attempted; and a removal that fails is
  the last call of the loop, which ends there (by \<open>break\<close> for a Telegram error, by the
  exception otherwise).
\<close>

lemma rotation_order:
  assumes "stream_loop md d uid frags stream_end s = (fl, s')"
  shows "\<exists>new. trace s' = trace s @ new \<and> creations_follow_removal new \<and> failed_removal_ends new fl"
  using assms
proof (induction frags arbitrary: s)
  case Nil
  then have "trace s' = trace s @ []" by (auto split: option.splits)
  then show ?case
    by (intro exI [of _ "[]"]) (simp add: creations_follow_removal_def failed_removal_ends_def)
next
  case (Cons a frags)
  obtain chunk env where a: "a = (chunk, env)" by (cases a)
  obtain fl1 s1 where body: "stream_body md d uid chunk env s = (fl1, s1)"
    by (cases "stream_body md d uid chunk env s")
  from stream_body_events [OF body]
  obtain new1 where n1: "trace s1 = trace s @ new1" "creations_follow_removal new1"
    "failed_removal_ends new1 fl1" "fl1 = Continue \<longrightarrow> (\<forall>ev \<in> set new1. \<not> removal_failed ev)"
    by auto
  show ?case
  proof (cases "fl1 = Continue")
    case True
    with Cons.prems a body have run1: "stream_loop md d uid frags stream_end s1 = (fl, s')" by simp
    from Cons.IH [OF run1]
    obtain new2 where n2: "trace s' = trace s1 @ new2" "creations_follow_removal new2"
      "failed_removal_ends new2 fl" by auto
    have "trace s' = trace s @ (new1 @ new2)" using n1 n2 by simp
    moreover have "creations_follow_removal (new1 @ new2)"
      using n1 n2 by (intro creations_follow_append)
    moreover have "failed_removal_ends (new1 @ new2) fl"
      using n1 n2 True by (intro failed_removal_ends_append) simp_all
    ultimately show ?thesis by blast
  next
    case False
    with Cons.prems a body have eq: "fl = fl1" "s' = s1" by (auto split: flow.splits)
    with n1 show ?thesis by blast
  qed
qed

lemma rotation_order_example:
  "trace (snd (stream_loop (md_source ascii_ucd) ascii_ucd 1
       [(replicate 3997 97, quiet_iter), (u ''b'', quiet_iter)] None (initial_state 1 0 []))) =
     [(EditMessageText (Some 1) (Text (replicate 3997 97)) HTML (ProgressKeyboard 1), Done),
      (EditMessageReplyMarkup (Some 1) NoMarkup, Done),
      (Answer Dots HTML (ProgressKeyboard 1), Sent 2)] \<and>
   creations_follow_removal
     [(EditMessageText (Some 1) (Text (replicate 3997 97)) HTML (ProgressKeyboard 1), Done),
      (EditMessageReplyMarkup (Some 1) NoMarkup, Done),
      (Answer Dots HTML (ProgressKeyboard 1), Sent 2)]"
proof -
  let ?R = "stream_loop (md_source ascii_ucd) ascii_ucd 1
       [(replicate 3997 97, quiet_iter), (u ''b'', quiet_iter)] None (initial_state 1 0 [])"
  obtain fl s' where run: "?R = (fl, s')" by (cases ?R)
  have "?R = (Continue,
        \<lparr>full_raw_response = replicate 3997 97 @ u ''b'', current_message_text = u ''b'',
         current_message_id = Some 2, message_count = 2, last_edit_time = 0, formatting_failed = False,
         trace = [(EditMessageText (Some 1) (Text (replicate 3997 97)) HTML (ProgressKeyboard 1), Done),
                  (EditMessageReplyMarkup (Some 1) NoMarkup, Done),
                  (Answer Dots HTML (ProgressKeyboard 1), Sent 2)],
         yielded = [replicate 3997 97, u ''b''], finalized = [replicate 3997 97]\<rparr>)"
    by (simp only: stream_loop.simps body1 body2_ok prod.case flow.case option.case)
  then have tr: "trace (snd ?R) =
     [(EditMessageText (Some 1) (Text (replicate 3997 97)) HTML (ProgressKeyboard 1), Done),
      (EditMessageReplyMarkup (Some 1) NoMarkup, Done),
      (Answer Dots HTML (ProgressKeyboard 1), Sent 2)]"
    by simp
  from rotation_order [OF run]
  obtain new where "trace s' = trace (initial_state 1 0 []) @ new" "creations_follow_removal new"
    by blast
  with tr run show ?thesis by (simp add: initial_state_def)
qed


text \<open>
  C9: during a generation that rotates segments, a failed attempt to remove the cancel
  affordance of unit N is to be tolerated: unit N+1 is still created and streaming
  continues. The loop does not do so. The removal and the creation are the two
  statements of one \<open>try\<close> block, whose handler (it logs a failure to send the placeholder,
  and its comment speaks of a new message that cannot be created) sets
  \<open>current_message_id\<close> to \<open>None\<close> and leaves the loop. The provider's sequence is 3997
  times \<open>a\<close>, then \<open>b\<close>, then \<open>c\<close>; \<open>b\<close> overflows the first unit, and the removal of the
  affordance of unit 1 fails on flood control. The loop ends with that call: unit 2 is
  not created, \<open>b\<close> is shown nowhere, and \<open>c\<close> is never taken from the provider.
\<close>

theorem failed_removal_ends_stream:
  "(case stream_loop (md_source ascii_ucd) ascii_ucd 1
         [(replicate 3997 97, quiet_iter),
          (u ''b'', quiet_iter\<lparr>it_remove_markup := Some (TelegramRetryAfter 5)\<rparr>),
          (u ''c'', quiet_iter)] None (initial_state 1 0 []) of
      (fl, s) \<Rightarrow>
        fl = BreakNoPlaceholder \<and> current_message_id s = None \<and>
        yielded s = [replicate 3997 97, u ''b''] \<and>
        trace s = [(EditMessageText (Some 1) (Text (replicate 3997 97)) HTML (ProgressKeyboard 1), Done),
                   (EditMessageReplyMarkup (Some 1) NoMarkup, Failed (TelegramRetryAfter 5))])"
proof -
  have "stream_loop (md_source ascii_ucd) ascii_ucd 1
         [(replicate 3997 97, quiet_iter),
          (u ''b'', quiet_iter\<lparr>it_remove_markup := Some (TelegramRetryAfter 5)\<rparr>),
          (u ''c'', quiet_iter)] None (initial_state 1 0 []) =
        (BreakNoPlaceholder,
         \<lparr>full_raw_response = replicate 3997 97 @ u ''b'', current_message_text = u ''b'',
          current_message_id = None, message_count = 2, last_edit_time = 0, formatting_failed = False,
          trace = [(EditMessageText (Some 1) (Text (replicate 3997 97)) HTML (ProgressKeyboard 1), Done),
                   (EditMessageReplyMarkup (Some 1) NoMarkup, Failed (TelegramRetryAfter 5))],
          yielded = [replicate 3997 97, u ''b''], finalized = [replicate 3997 97]\<rparr>)"
    by (simp only: stream_loop.simps body1 body2_fail prod.case flow.case option.case)
  then show ?thesis by simp
qed

section \<open>Properties of the handlers\<close>

text \<open>
  Environments in which every call succeeds: the user's message is \<open>hello\<close>, the task is
  0 (text) or 1 (photo), the clocks stand at day 20023, the placeholder gets message id 1
  and the provider yields nothing.
\<close>

definition quiet_handler :: handler_env where
  "quiet_handler = \<lparr>h_text = u ''hello'', h_task = 0, h_db_clock = 1730000000, h_image = None,
     h_image_error_reply = None, h_internal_error_reply = None, h_create_user_fails = False,
     h_busy_reply = None, h_chat_action = None, h_save_user_turn = None, h_quota_clock = 1730000000,
     h_quota_reply = None, h_first_placeholder = Inr 1, h_start_time = 0, h_fragments = [],
     h_stream_end = None, h_final = quiet_final, h_error_notice = None\<rparr>"

definition quiet_photo :: photo_env where
  "quiet_photo = \<lparr>p_caption = None, p_task = 1, p_db_clock = 1730000000, p_internal_error_reply = None,
     p_create_user_fails = False, p_quota_clock = 1730000000, p_quota_reply = None, p_busy_reply = None,
     p_download = None, p_save_user_turn = None, p_placeholder = Inr 1, p_fragments = [],
     p_stream_end = None, p_final_edit = None, p_final_menu = None, p_final_edit_raw = None,
     p_final_menu_raw = None, p_display_failed_reply = None, p_save_assistant = None,
     p_error_reply = None\<rparr>"


text \<open>
  C3: while a user has a generation in flight, a second inbound message from that user is
  to be rejected with a notice and without any state change: no new task, no quota unit
  consumed, no conversation turn. \<open>message_handler\<close> does that (lemma
  \<open>message_handler_busy_unchanged\<close> below). \<open>photo_handler\<close> calls
  \<open>check_and_consume_limit\<close> before it looks at \<open>active_requests\<close>, and its early return runs
  the \<open>finally\<close> clause: for a busy user with 5 units left, the photo is rejected with the
  notice, one unit is gone, and the entry of the generation in flight is removed from
  \<open>active_requests\<close>.
\<close>

theorem busy_photo_consumes_quota:
  "(case photo_handler postgres_backend (md_source ascii_ucd) ascii_ucd 1 quiet_photo
           (world0\<lparr>active_requests := [1 \<mapsto> 0], users := [1 \<mapsto> free_user 5 20023]\<rparr>) of
      (raised, w, tr) \<Rightarrow>
        raised = None \<and>
        tr = [(Answer BusyNotice HTML (ProgressKeyboard 1), Done)] \<and>
        counter_of (users w) 1 = Some 4 \<and>
        active_requests w 1 = None)"
  by code_simp


lemma message_handler_busy_unchanged:
  assumes "message_handler be md d uid env w = (r, w', tr)"
    and "active_requests w uid \<noteq> None" and "uid \<notin> pending_photo_prompts w"
  shows "active_requests w' = active_requests w \<and> conversations w' = conversations w \<and>
         (\<forall>v. users w v \<noteq> None \<longrightarrow> counter_of (users w') v = counter_of (users w) v)"
  using assms
  by (auto simp: message_handler_def get_or_create_user_def get_user_def update_row_def counter_of_def
                 Let_def
           split: if_splits option.splits prod.splits)


text \<open>
  C8: on every exit path of a handler that registered a generation task, the user's entry
  is to be removed from \<open>active_requests\<close> before the handler terminates.
  \<open>message_handler\<close> registers the task and then awaits \<open>send_chat_action\<close> before its
  \<open>try\<close> statement begins: when that call raises, the exception leaves the handler, the
  entry stays, and the user's next message is rejected as busy.
\<close>

theorem chat_action_failure_leaves_entry:
  "(case message_handler postgres_backend (md_source ascii_ucd) ascii_ucd 1
           (quiet_handler\<lparr>h_chat_action := Some (TelegramAPIError (u ''Forbidden: bot was blocked by the user''))\<rparr>)
           (world0\<lparr>users := [1 \<mapsto> free_user 7 20023]\<rparr>) of
      (raised, w, tr) \<Rightarrow>
        raised = Some (TelegramAPIError (u ''Forbidden: bot was blocked by the user'')) \<and>
        tr = [(SendChatAction, Failed (TelegramAPIError (u ''Forbidden: bot was blocked by the user'')))] \<and>
        active_requests w 1 = Some 0 \<and>
        (case message_handler postgres_backend (md_source ascii_ucd) ascii_ucd 1 quiet_handler w of
           (raised2, w2, tr2) \<Rightarrow>
             tr2 = [(Answer BusyNotice HTML (ProgressKeyboard 1), Done)] \<and> active_requests w2 1 = Some 0))"
  by code_simp


text \<open>
  Past that call, and in \<open>photo_handler\<close> on every path, a user who had no entry before the
  handler has none after it.
\<close>

lemma message_handler_releases:
  assumes "message_handler be md d uid env w = (r, w', tr)"
    and "h_chat_action env = None" and "active_requests w uid = None"
  shows "active_requests w' uid = None"
  using assms
  by (auto simp: message_handler_def Let_def split: if_splits option.splits prod.splits)

lemma photo_handler_releases:
  assumes "photo_handler be md d uid env w = (r, w', tr)" and "active_requests w uid = None"
  shows "active_requests w' uid = None"
  using assms
  by (auto simp: photo_handler_def Let_def
           split: if_splits option.splits prod.splits sum.splits bool.splits py_exc.splits)

end
